theory Spec2Isabelle
  imports Complex_Main "HOL-Library.Log_Nat"
begin

section \<open>Text of a stream chunk\<close>

text \<open>
  The browser code turns every chunk it reads into text with
  \<^verbatim>\<open>new TextDecoder().decode(value)\<close> and works on that text. A chunk is
  modelled as the decoded text, a \<^typ>\<open>string\<close>; the progress streams are ASCII,
  where decoding is the identity. The elements of the page that the consumers write
  to are taken to exist.
\<close>

definition nl :: char where
  "nl = CHR 0x0A"

text \<open>\<^verbatim>\<open>text.split('\n')\<close>: the pieces between newlines; never the empty array.\<close>

fun split_nl :: "string \<Rightarrow> string list" where
  "split_nl [] = [[]]"
| "split_nl (c # cs) =
     (if c = nl then [] # split_nl cs
      else (case split_nl cs of
              l # ls \<Rightarrow> (c # l) # ls
            | [] \<Rightarrow> [[c]]))"

text \<open>
  \<^verbatim>\<open>line.trim()\<close> on ASCII text: tab, line feed, vertical tab, form feed,
  carriage return and space are removed from both ends.
\<close>

definition is_ws :: "char \<Rightarrow> bool" where
  "is_ws c = (c = CHR 0x09 \<or> c = CHR 0x0A \<or> c = CHR 0x0B \<or> c = CHR 0x0C
              \<or> c = CHR 0x0D \<or> c = CHR 0x20)"

definition js_trim :: "string \<Rightarrow> string" where
  "js_trim s = rev (dropWhile is_ws (rev (dropWhile is_ws s)))"

text \<open>A string is truthy when it is not empty.\<close>

definition truthy :: "string \<Rightarrow> bool" where
  "truthy s = (s \<noteq> [])"

text \<open>Decimal digits of a natural number, as a template literal prints an integer.\<close>

definition digit :: "nat \<Rightarrow> char" where
  "digit d = ''0123456789'' ! d"

function show_nat :: "nat \<Rightarrow> string" where
  "show_nat n = (if n < 10 then [digit n] else show_nat (n div 10) @ [digit (n mod 10)])"
  by pat_completeness auto
termination
  by (relation "measure id") auto

declare show_nat.simps [simp del]

section \<open>Progress records\<close>

text \<open>
  One parsed line of the stream: \<^verbatim>\<open>status\<close> is a string, \<^verbatim>\<open>completed\<close> and
  \<^verbatim>\<open>total\<close> are byte counts that may be absent, \<^verbatim>\<open>error\<close> is a string that
  may be absent. \<^term>\<open>None\<close> is JavaScript's \<^verbatim>\<open>undefined\<close>.
\<close>

record progress =
  status :: string
  completed :: "nat option"
  total :: "nat option"
  error :: "string option"

text \<open>
  \<^verbatim>\<open>JSON.parse\<close> belongs to the runtime. The consumers take it as a
  parameter: \<^term>\<open>None\<close> when it throws (its SyntaxError message is never one
  of the two messages the consumers compare with), the record otherwise. A line that
  parses to anything but an object with a string \<^verbatim>\<open>status\<close> lies outside the
  model.
\<close>

type_synonym parser = "string \<Rightarrow> progress option"

text \<open>
  \<^verbatim>\<open>formatSize\<close> prints a byte count through floating-point logarithms and
  \<^verbatim>\<open>toFixed(2)\<close>; no claim depends on its digits, it is a parameter too.
\<close>

type_synonym formatter = "nat option \<Rightarrow> string"

subsection \<open>Numbers\<close>

text \<open>
  A JavaScript number is an IEEE 754 double. The numbers of the consumers are never
  negative; such a number is modelled by its exact value, a rational, or is
  \<^verbatim>\<open>Infinity\<close> or \<^verbatim>\<open>NaN\<close>. Every operation rounds its exact result to the
  nearest double, as the hardware does.
\<close>

datatype jsnum = Num rat | PosInf | NaN

text \<open>For \<open>q > 0\<close>: the exponent \<open>k\<close> with \<open>2\<^sup>k \<le> q < 2\<^sup>k\<^sup>+\<^sup>1\<close>.\<close>

definition binade :: "rat \<Rightarrow> int" where
  "binade q =
     (case quotient_of q of
        (a, b) \<Rightarrow> let d = bitlen a - bitlen b in if 2 powi d \<le> q then d else d - 1)"

text \<open>The nearest integer, a tie going to the even one.\<close>

definition round_half_even :: "rat \<Rightarrow> int" where
  "round_half_even m =
     (let f = \<lfloor>m\<rfloor>; r = m - of_int f
      in if r < 1 / 2 then f
         else if 1 / 2 < r then f + 1
         else if even f then f else f + 1)"

text \<open>
  Rounding to double precision, for \<open>q \<ge> 0\<close>: 53 significant bits, the nearest
  value, a tie going to the even significand; the spacing of the doubles stops
  shrinking below \<open>2\<^sup>-\<^sup>1\<^sup>0\<^sup>2\<^sup>2\<close>, and a result of \<open>2\<^sup>1\<^sup>0\<^sup>2\<^sup>4\<close> or more, one
  whose exponent is 1024 at least, is \<^verbatim>\<open>Infinity\<close>.
\<close>

definition to_double :: "rat \<Rightarrow> jsnum" where
  "to_double q =
     (if q \<le> 0 then Num 0
      else let ulp = 2 powi (max (binade q) (- 1022) - 52);
               r = of_int (round_half_even (q / ulp)) * ulp
           in if 1024 \<le> binade r then PosInf else Num r)"

text \<open>The value of an integer literal, as \<^verbatim>\<open>JSON.parse\<close> reads it.\<close>

definition number_of :: "nat \<Rightarrow> jsnum" where
  "number_of n = to_double (of_nat n)"

text \<open>\<^verbatim>\<open>x / y\<close> on numbers that are not negative.\<close>

fun divide_num :: "jsnum \<Rightarrow> jsnum \<Rightarrow> jsnum" where
  "divide_num (Num x) (Num y) =
     (if y = 0 then (if x = 0 then NaN else PosInf) else to_double (x / y))"
| "divide_num (Num x) PosInf = Num 0"
| "divide_num PosInf (Num y) = PosInf"
| "divide_num PosInf PosInf = NaN"
| "divide_num NaN _ = NaN"
| "divide_num _ NaN = NaN"

text \<open>\<^verbatim>\<open>a / b\<close> on two fields; an absent field is \<^verbatim>\<open>undefined\<close>, which is NaN.\<close>

fun js_div :: "nat option \<Rightarrow> nat option \<Rightarrow> jsnum" where
  "js_div (Some a) (Some b) = divide_num (number_of a) (number_of b)"
| "js_div _ _ = NaN"

text \<open>\<^verbatim>\<open>x * 100\<close>.\<close>

fun times100 :: "jsnum \<Rightarrow> jsnum" where
  "times100 (Num q) = to_double (q * 100)"
| "times100 PosInf = PosInf"
| "times100 NaN = NaN"

text \<open>
  \<^verbatim>\<open>Math.round(x)\<close>: the integer nearest to the value of the double, a tie going
  up. The result is a double itself; nothing is rounded a second time.
\<close>

fun math_round :: "jsnum \<Rightarrow> jsnum" where
  "math_round (Num q) = Num (of_int \<lfloor>q + 1 / 2\<rfloor>)"
| "math_round PosInf = PosInf"
| "math_round NaN = NaN"

text \<open>\<^verbatim>\<open>x > 0\<close> on a field; \<^verbatim>\<open>undefined > 0\<close> is false.\<close>

fun js_gt0 :: "nat option \<Rightarrow> bool" where
  "js_gt0 (Some t) = (0 < t)"
| "js_gt0 None = False"

text \<open>
  \<^verbatim>\<open>x.toFixed(1)\<close>: the multiple of one tenth nearest to the value of the double
  (a tie going up), printed with one decimal. This is what the runtime prints for a
  value below \<open>10\<^sup>2\<^sup>1\<close>; byte counts below \<open>2\<^sup>5\<^sup>3\<close> keep the percentage below
  that.
\<close>

fun toFixed1 :: "jsnum \<Rightarrow> string" where
  "toFixed1 (Num q) =
     (let n = nat \<lfloor>q * 10 + 1 / 2\<rfloor> in show_nat (n div 10) @ ''.'' @ show_nat (n mod 10))"
| "toFixed1 PosInf = ''Infinity''"
| "toFixed1 NaN = ''NaN''"

text \<open>
  A number inside a template literal. It is only ever applied to the result of
  \<^verbatim>\<open>Math.round\<close> or to the literal 0: an integer that is not negative,
  \<^verbatim>\<open>Infinity\<close> or NaN. The digits are what the runtime prints for an integer below
  \<open>10\<^sup>2\<^sup>1\<close>.
\<close>

fun show_num :: "jsnum \<Rightarrow> string" where
  "show_num (Num q) = show_nat (nat \<lfloor>q\<rfloor>)"
| "show_num PosInf = ''Infinity''"
| "show_num NaN = ''NaN''"

text \<open>\<^verbatim>\<open>update.error || dflt\<close>: the field when present and not empty.\<close>

fun js_or :: "string option \<Rightarrow> string \<Rightarrow> string" where
  "js_or (Some s) dflt = (if truthy s then s else dflt)"
| "js_or None dflt = dflt"

section \<open>What the page shows\<close>

text \<open>
  \<^term>\<open>Render aux txt\<close>: one repaint. \<open>txt\<close> is the new text of the status line;
  \<open>aux\<close> is what the same repaint writes to the second element (the width of the
  progress bar, or the progress text), \<^term>\<open>None\<close> when it leaves it alone.
  \<^term>\<open>Log l\<close>: \<^verbatim>\<open>console.error\<close> for the line \<open>l\<close>.
  \<^term>\<open>Toast msg kind\<close>: \<^verbatim>\<open>showToast\<close>.
\<close>

datatype event = Render "string option" string | Log string | Toast string string

fun is_render :: "event \<Rightarrow> bool" where
  "is_render (Render _ _) = True"
| "is_render _ = False"

definition renders :: "event list \<Rightarrow> event list" where
  "renders evs = filter is_render evs"

fun label :: "event \<Rightarrow> string" where
  "label (Render _ t) = t"
| "label (Log l) = l"
| "label (Toast m _) = m"

text \<open>What a \<^verbatim>\<open>catch\<close> clause receives.\<close>

datatype exn = SyntaxError | OpError string

section \<open>Loops that an exception can leave\<close>

text \<open>
  \<^verbatim>\<open>for (const x of xs) { ... }\<close> with a loop variable \<open>s\<close>: the body gives the
  events of one turn and either the message of the error it throws (\<^term>\<open>Inl\<close>,
  the loop stops there) or the next value of the loop variable.
\<close>

fun for_each ::
  "('s \<Rightarrow> 'a \<Rightarrow> event list \<times> (string + 's)) \<Rightarrow> 's \<Rightarrow> 'a list \<Rightarrow> event list \<times> (string + 's)" where
  "for_each body s [] = ([], Inr s)"
| "for_each body s (x # xs) =
     (case body s x of
        (evs, Inl m) \<Rightarrow> (evs, Inl m)
      | (evs, Inr s') \<Rightarrow>
          (case for_each body s' xs of (evs', r) \<Rightarrow> (evs @ evs', r)))"

section \<open>The page script: update stream\<close>

text \<open>
  \<^verbatim>\<open>handleUpdateStatus(update, statusElement)\<close>: the label for a record, or the
  error it throws.
\<close>

definition handleUpdateStatus :: "progress \<Rightarrow> exn + string" where
  "handleUpdateStatus update =
     (if status update = ''error''
        then Inl (OpError (js_or (error update) ''Update failed''))
      else if status update = ''downloading''
        then Inr (''Downloading: ''
                  @ toFixed1 (times100 (js_div (completed update) (total update))) @ ''%'')
      else if status update = ''verifying digest'' then Inr ''Verifying download...''
      else if status update = ''writing manifest'' then Inr ''Finalizing update...''
      else Inr (status update))"

text \<open>
  The \<^verbatim>\<open>try\<close> block of \<^verbatim>\<open>processUpdateStream\<close> for one line: the new
  \<^verbatim>\<open>lastStatus\<close> with the repaint it caused, or what was thrown.
\<close>

definition update_try :: "parser \<Rightarrow> string \<Rightarrow> string \<Rightarrow> exn + (string \<times> event list)" where
  "update_try P lastStatus line =
     (case P line of
        None \<Rightarrow> Inl SyntaxError
      | Some update \<Rightarrow>
          (case handleUpdateStatus update of
             Inl e \<Rightarrow> Inl e
           | Inr newStatus \<Rightarrow>
               if newStatus \<noteq> lastStatus
               then Inr (newStatus, [Render None newStatus])
               else Inr (lastStatus, [])))"

text \<open>
  One turn of the \<^verbatim>\<open>for\<close> loop, with its \<^verbatim>\<open>catch\<close>: the events of the
  line and either the message of the error that leaves the loop (\<^term>\<open>Inl\<close>) or the
  \<^verbatim>\<open>lastStatus\<close> the loop goes on with.
\<close>

definition update_line :: "parser \<Rightarrow> string \<Rightarrow> string \<Rightarrow> event list \<times> (string + string)" where
  "update_line P lastStatus line =
     (if \<not> truthy (js_trim line) then ([], Inr lastStatus)
      else (case update_try P lastStatus line of
              Inr (s, evs) \<Rightarrow> (evs, Inr s)
            | Inl SyntaxError \<Rightarrow> ([Log line], Inr lastStatus)
            | Inl (OpError m) \<Rightarrow>
                if m = ''Update failed'' then ([], Inl m)
                else ([Log line], Inr lastStatus)))"

definition update_lines :: "parser \<Rightarrow> string \<Rightarrow> string list \<Rightarrow> event list \<times> (string + string)" where
  "update_lines P = for_each (update_line P)"

text \<open>The \<^verbatim>\<open>while\<close> loop: every chunk is split on its own.\<close>

definition update_chunks :: "parser \<Rightarrow> string \<Rightarrow> string list \<Rightarrow> event list \<times> (string + string)" where
  "update_chunks P = for_each (\<lambda>lastStatus chunk. update_lines P lastStatus (split_nl chunk))"

text \<open>\<^verbatim>\<open>processUpdateStream(reader, statusElement)\<close> on the chunks the reader yields.\<close>

definition processUpdateStream :: "parser \<Rightarrow> string list \<Rightarrow> event list \<times> (string + string)" where
  "processUpdateStream P chunks = update_chunks P [] chunks"

text \<open>
  \<^verbatim>\<open>updateModel\<close> after a response with \<^verbatim>\<open>response.ok\<close>: the stream, then
  the closing text or the error text.
\<close>

definition updateModel :: "parser \<Rightarrow> string list \<Rightarrow> event list" where
  "updateModel P chunks =
     (case processUpdateStream P chunks of
        (evs, Inr _) \<Rightarrow> Render None ''Starting update...'' # evs @ [Render None ''Update complete'']
      | (evs, Inl m) \<Rightarrow> Render None ''Starting update...'' # evs @ [Render None (''Error: '' @ m)])"

section \<open>The page script: pull stream\<close>

definition pull_try ::
  "parser \<Rightarrow> formatter \<Rightarrow> string \<Rightarrow> string \<Rightarrow> exn + (string \<times> event list)" where
  "pull_try P formatSize lastStatus line =
     (case P line of
        None \<Rightarrow> Inl SyntaxError
      | Some update \<Rightarrow>
          if status update = ''error''
            then Inl (OpError (js_or (error update) ''Pull failed''))
          else if status update = ''downloading''
            then Inr (lastStatus,
                   [Render (Some (''Downloading: '' @ formatSize (completed update)
                                  @ '' / '' @ formatSize (total update)))
                           (status update)])
          else if status update \<noteq> lastStatus
            then Inr (status update, [Render None (status update)])
          else Inr (lastStatus, []))"

definition pull_line ::
  "parser \<Rightarrow> formatter \<Rightarrow> string \<Rightarrow> string \<Rightarrow> event list \<times> (string + string)" where
  "pull_line P formatSize lastStatus line =
     (if truthy (js_trim line)
      then (case pull_try P formatSize lastStatus line of
              Inr (s, evs) \<Rightarrow> (evs, Inr s)
            | Inl SyntaxError \<Rightarrow> ([Log line], Inr lastStatus)
            | Inl (OpError m) \<Rightarrow>
                if m = ''Pull failed'' then ([], Inl m)
                else ([Log line], Inr lastStatus))
      else ([], Inr lastStatus))"

definition pull_lines ::
  "parser \<Rightarrow> formatter \<Rightarrow> string \<Rightarrow> string list \<Rightarrow> event list \<times> (string + string)" where
  "pull_lines P formatSize = for_each (pull_line P formatSize)"

definition pull_chunks ::
  "parser \<Rightarrow> formatter \<Rightarrow> string \<Rightarrow> string list \<Rightarrow> event list \<times> (string + string)" where
  "pull_chunks P formatSize =
     for_each (\<lambda>lastStatus chunk. pull_lines P formatSize lastStatus (split_nl chunk))"

text \<open>
  \<^verbatim>\<open>pullModel()\<close> of the page after a response with \<^verbatim>\<open>response.ok\<close>:
  the reader loop, then \<^verbatim>\<open>Pull complete\<close>, or the \<^verbatim>\<open>catch\<close> with the
  error text.
\<close>

definition pullModel :: "parser \<Rightarrow> formatter \<Rightarrow> string list \<Rightarrow> event list" where
  "pullModel P formatSize chunks =
     (case pull_chunks P formatSize [] chunks of
        (evs, Inr _) \<Rightarrow> Render None ''Starting pull...'' # evs @ [Render None ''Pull complete'']
      | (evs, Inl m) \<Rightarrow> Render None ''Starting pull...'' # evs @ [Render None (''Error: '' @ m)])"

section \<open>The application script: AppState.pullModel\<close>

text \<open>The percentage of a \<^verbatim>\<open>downloading\<close> record.\<close>

definition percent :: "progress \<Rightarrow> jsnum" where
  "percent data =
     (if js_gt0 (total data)
      then math_round (times100 (js_div (completed data) (total data)))
      else Num 0)"

text \<open>
  The \<^verbatim>\<open>try\<close> block for one line. The loop's local \<^verbatim>\<open>pullStatus\<close> is
  assigned here and read nowhere, so it is left out.
\<close>

definition app_try :: "parser \<Rightarrow> formatter \<Rightarrow> string \<Rightarrow> exn + event list" where
  "app_try P formatSize line =
     (case P line of
        None \<Rightarrow> Inl SyntaxError
      | Some data \<Rightarrow>
          if status data = ''downloading''
            then Inr [Render (Some (show_num (percent data) @ ''%''))
                        (''Downloading: '' @ show_num (percent data) @ ''% (''
                         @ formatSize (completed data) @ '' / ''
                         @ formatSize (total data) @ '')'')]
          else if status data = ''verifying''
            then Inr [Render None ''Verifying checksum...'']
          else if status data = ''success''
            then Inr [Render None ''Pull completed successfully'']
          else Inr [])"

text \<open>The \<^verbatim>\<open>catch\<close> logs whatever was thrown and the loop goes on.\<close>

definition app_line :: "parser \<Rightarrow> formatter \<Rightarrow> string \<Rightarrow> event list" where
  "app_line P formatSize line =
     (case app_try P formatSize line of Inl e \<Rightarrow> [Log line] | Inr evs \<Rightarrow> evs)"

text \<open>The \<^verbatim>\<open>for\<close> loop over the lines kept by the filter.\<close>

definition app_lines :: "parser \<Rightarrow> formatter \<Rightarrow> string list \<Rightarrow> event list" where
  "app_lines P formatSize lines = concat (map (app_line P formatSize) lines)"

text \<open>One chunk: \<^verbatim>\<open>text.split('\n').filter((line) => line.trim())\<close>, then the loop.\<close>

definition app_chunk :: "parser \<Rightarrow> formatter \<Rightarrow> string \<Rightarrow> event list" where
  "app_chunk P formatSize chunk =
     app_lines P formatSize (filter (\<lambda>line. truthy (js_trim line)) (split_nl chunk))"

text \<open>The reader loop: the events of all chunks, one chunk after the other.\<close>

definition app_chunks :: "parser \<Rightarrow> formatter \<Rightarrow> string list \<Rightarrow> event list" where
  "app_chunks P formatSize chunks = concat (map (app_chunk P formatSize) chunks)"

text \<open>
  \<^verbatim>\<open>AppState.pullModel(modelName)\<close> after a response with \<^verbatim>\<open>response.ok\<close>,
  up to the end of the stream.
\<close>

definition AppState_pullModel :: "parser \<Rightarrow> formatter \<Rightarrow> string \<Rightarrow> string list \<Rightarrow> event list" where
  "AppState_pullModel P formatSize modelName chunks =
     Render (Some ''0%'') ''Initializing...''
     # app_chunks P formatSize chunks
     @ [Toast (''Successfully pulled '' @ modelName) ''success'']"

section \<open>A reader for the lines of the examples\<close>

text \<open>
  The examples need \<^verbatim>\<open>JSON.parse\<close> at concrete lines. \<open>parse_record\<close> reads
  the fragment they use: one flat object without white space whose values are
  strings without escapes or unsigned integers, with a string \<^verbatim>\<open>status\<close>.
  Every general statement below is about an arbitrary parser.
\<close>

datatype token = LBrace | RBrace | Colon | Comma | Str string | Number nat

datatype lex_mode = Idle | InStr string | InNum nat

definition digit_val :: "char \<Rightarrow> nat option" where
  "digit_val c =
     (let n = (of_char c :: nat) in if 48 \<le> n \<and> n \<le> 57 then Some (n - 48) else None)"

fun lex :: "lex_mode \<Rightarrow> string \<Rightarrow> token list option" where
  "lex Idle [] = Some []"
| "lex (InStr acc) [] = None"
| "lex (InNum n) [] = Some [Number n]"
| "lex Idle (c # cs) =
     (if c = CHR ''{'' then map_option (Cons LBrace) (lex Idle cs)
      else if c = CHR ''}'' then map_option (Cons RBrace) (lex Idle cs)
      else if c = CHR '':'' then map_option (Cons Colon) (lex Idle cs)
      else if c = CHR '','' then map_option (Cons Comma) (lex Idle cs)
      else if c = CHR 0x22 then lex (InStr []) cs
      else (case digit_val c of Some d \<Rightarrow> lex (InNum d) cs | None \<Rightarrow> None))"
| "lex (InStr acc) (c # cs) =
     (if c = CHR 0x22 then map_option (Cons (Str (rev acc))) (lex Idle cs)
      else if c = CHR 0x5C \<or> (of_char c :: nat) < 32 then None
      else lex (InStr (c # acc)) cs)"
| "lex (InNum n) (c # cs) =
     (case digit_val c of
        Some d \<Rightarrow> if n = 0 then None else lex (InNum (10 * n + d)) cs
      | None \<Rightarrow>
          if c = CHR '','' then map_option (\<lambda>ts. Number n # Comma # ts) (lex Idle cs)
          else if c = CHR ''}'' then map_option (\<lambda>ts. Number n # RBrace # ts) (lex Idle cs)
          else None)"

fun is_value :: "token \<Rightarrow> bool" where
  "is_value (Str _) = True"
| "is_value (Number _) = True"
| "is_value _ = False"

fun members :: "token list \<Rightarrow> (string \<times> token) list option" where
  "members (Str k # Colon # v # t # ts) =
     (if \<not> is_value v then None
      else if t = RBrace \<and> ts = [] then Some [(k, v)]
      else if t = Comma then map_option (Cons (k, v)) (members ts)
      else None)"
| "members _ = None"

definition parse_object :: "string \<Rightarrow> (string \<times> token) list option" where
  "parse_object s =
     (case lex Idle s of
        Some (LBrace # ts) \<Rightarrow> if ts = [RBrace] then Some [] else members ts
      | _ \<Rightarrow> None)"

fun str_field :: "token option \<Rightarrow> string option" where
  "str_field (Some (Str s)) = Some s"
| "str_field _ = None"

fun num_field :: "token option \<Rightarrow> nat option" where
  "num_field (Some (Number n)) = Some n"
| "num_field _ = None"

definition parse_record :: parser where
  "parse_record s =
     (case parse_object s of
        None \<Rightarrow> None
      | Some fs \<Rightarrow>
          (case str_field (map_of (rev fs) ''status'') of
             None \<Rightarrow> None
           | Some st \<Rightarrow>
               Some \<lparr>status = st,
                     completed = num_field (map_of (rev fs) ''completed''),
                     total = num_field (map_of (rev fs) ''total''),
                     error = str_field (map_of (rev fs) ''error'')\<rparr>))"

text \<open>A formatter for the examples: the digits of the byte count.\<close>

fun plain_size :: formatter where
  "plain_size (Some n) = show_nat n"
| "plain_size None = []"

section \<open>The server: values, errors, responses\<close>

text \<open>
  A JSON value as the server builds it. \<^term>\<open>JOpaque\<close> stands for text the runtime
  or a library decides (a stack trace, the validator's report).
\<close>

datatype json =
  JNull | JBool bool | JNum int | JStr string | JArr "json list"
  | JObj "(string \<times> json) list" | JOpaque

text \<open>The truth value of a property in \<^verbatim>\<open>if (err.errors)\<close>.\<close>

fun json_truthy :: "json \<Rightarrow> bool" where
  "json_truthy JNull = False"
| "json_truthy (JBool b) = b"
| "json_truthy (JNum n) = (n \<noteq> 0)"
| "json_truthy (JStr s) = truthy s"
| "json_truthy _ = True"

datatype http_method = GET | POST | DELETE | OPTIONS

record request =
  meth :: http_method
  originalUrl :: string
  x_api_key :: "string option"
  x_forwarded_proto :: "string option"
  host :: string

text \<open>
  An error made by \<^verbatim>\<open>createError\<close>: its \<^verbatim>\<open>status\<close>, its \<^verbatim>\<open>message\<close>
  and the other properties copied onto it.
\<close>

record http_error =
  err_status :: nat
  err_message :: string
  err_props :: "(string \<times> json) list"

text \<open>The reason phrases of the status codes the server uses.\<close>

definition statuses_message :: "nat \<Rightarrow> string" where
  "statuses_message code =
     (if code = 207 then ''Multi-Status''
      else if code = 400 then ''Bad Request''
      else if code = 401 then ''Unauthorized''
      else if code = 404 then ''Not Found''
      else if code = 500 then ''Internal Server Error''
      else [])"

text \<open>
  \<^verbatim>\<open>createError(status, msg?, props?)\<close> of http-errors: the message is the
  string argument, or the reason phrase; every property but \<^verbatim>\<open>status\<close> and
  \<^verbatim>\<open>statusCode\<close> is then copied onto the error, so a \<^verbatim>\<open>message\<close> property
  (always a string literal in this server) replaces the message.
\<close>

definition createError :: "nat \<Rightarrow> string option \<Rightarrow> (string \<times> json) list \<Rightarrow> http_error" where
  "createError code msg props =
     \<lparr>err_status = code,
      err_message =
        (case map_of props ''message'' of
           Some (JStr m) \<Rightarrow> m
         | _ \<Rightarrow> (case msg of Some m \<Rightarrow> m | None \<Rightarrow> statuses_message code)),
      err_props =
        filter (\<lambda>kv. fst kv \<noteq> ''message'' \<and> fst kv \<noteq> ''status'' \<and> fst kv \<noteq> ''statusCode'')
               props\<rparr>"

datatype response = Json_response nat json | Redirect nat string

fun status_of :: "response \<Rightarrow> nat" where
  "status_of (Json_response code _) = code"
| "status_of (Redirect code _) = code"

text \<open>
  What a middleware or a route handler wrapped in \<^verbatim>\<open>asyncHandler\<close> does with a
  request: \<^verbatim>\<open>next()\<close>, \<^verbatim>\<open>next(err)\<close> (also for an error it throws), or a
  response.
\<close>

datatype action = Next | NextErr http_error | Respond response

subsection \<open>The two error handlers\<close>

text \<open>The handler registered right after the endpoint routes.\<close>

definition centralized_error_handler :: "string option \<Rightarrow> http_error \<Rightarrow> response" where
  "centralized_error_handler NODE_ENV err =
     Json_response
       (if err_status err = 0 then 500 else err_status err)
       (JObj ([(''success'', JBool False),
               (''error'', JStr (if truthy (err_message err) then err_message err
                                else ''Internal Server Error''))]
              @ (if NODE_ENV = Some ''development'' then [(''stack'', JOpaque)] else [])))"

text \<open>The handler registered near the end of the file.\<close>

definition global_error_handler :: "string option \<Rightarrow> http_error \<Rightarrow> response" where
  "global_error_handler NODE_ENV err =
     Json_response
       (if err_status err = 0 then 500 else err_status err)
       (JObj ([(''success'', JBool False),
               (''message'', JStr (if truthy (err_message err) then err_message err
                                  else ''Internal Server Error''))]
              @ (if NODE_ENV \<noteq> Some ''production''
                 then [(''error'', JStr (err_message err)), (''stack'', JOpaque)] else [])
              @ (case map_of (err_props err) ''errors'' of
                   Some v \<Rightarrow> if json_truthy v then [(''errors'', v)] else []
                 | None \<Rightarrow> [])))"

subsection \<open>Middleware of the server's own\<close>

definition apiKeyAuth :: "string option \<Rightarrow> request \<Rightarrow> action" where
  "apiKeyAuth API_KEY req =
     (case API_KEY of
        None \<Rightarrow> Next
      | Some k \<Rightarrow>
          if \<not> truthy k then Next
          else (case x_api_key req of
                  None \<Rightarrow> NextErr (createError 401 (Some ''Invalid API key'') [])
                | Some apiKey \<Rightarrow>
                    if \<not> truthy apiKey \<or> apiKey \<noteq> k
                    then NextErr (createError 401 (Some ''Invalid API key'') [])
                    else Next))"

definition force_https :: "request \<Rightarrow> action" where
  "force_https req =
     (if x_forwarded_proto req \<noteq> Some ''https''
      then Respond (Redirect 301 (''https://'' @ host req @ originalUrl req))
      else Next)"

definition not_found :: "request \<Rightarrow> action" where
  "not_found req = NextErr (createError 404 (Some (''Not Found - '' @ originalUrl req)) [])"

definition health :: "request \<Rightarrow> action" where
  "health req = Respond (Json_response 200 (JObj [(''status'', JStr ''ok'')]))"

section \<open>The server: the middleware stack\<close>

text \<open>
  Express keeps what \<^verbatim>\<open>app.use\<close>, \<^verbatim>\<open>app.get\<close>, \<^verbatim>\<open>app.post\<close> and
  \<^verbatim>\<open>app.delete\<close> register in one list, in the order of the calls. Every layer
  carries a name for the trace. A function of four parameters is an error handler.
\<close>

datatype layer =
  Use string "string option" "request \<Rightarrow> action"
  | Route string http_method string "request \<Rightarrow> action"
  | ErrorUse string "http_error \<Rightarrow> response"

fun layer_name :: "layer \<Rightarrow> string" where
  "layer_name (Use n _ _) = n"
| "layer_name (Route n _ _ _) = n"
| "layer_name (ErrorUse n _) = n"

fun is_error_layer :: "layer \<Rightarrow> bool" where
  "is_error_layer (ErrorUse _ _) = True"
| "is_error_layer _ = False"

text \<open>A mount path matches itself and what lies below it; no mount path matches all.\<close>

fun mounted :: "string option \<Rightarrow> string \<Rightarrow> bool" where
  "mounted None p = True"
| "mounted (Some m) p = (p = m \<or> take (Suc (length m)) p = m @ ''/'')"

text \<open>A route path matches the same path; \<^verbatim>\<open>*\<close> matches all.\<close>

definition route_match :: "string \<Rightarrow> string \<Rightarrow> bool" where
  "route_match pattern p = (pattern = ''*'' \<or> pattern = p)"

text \<open>Does the layer take the request, when no error is pending?\<close>

fun takes :: "layer \<Rightarrow> request \<Rightarrow> bool" where
  "takes (Use _ mount _) req = mounted mount (originalUrl req)"
| "takes (Route _ m pattern _) req = (meth req = m \<and> route_match pattern (originalUrl req))"
| "takes (ErrorUse _ _) req = False"

fun run_layer :: "layer \<Rightarrow> request \<Rightarrow> action" where
  "run_layer (Use _ _ f) req = f req"
| "run_layer (Route _ _ _ f) req = f req"
| "run_layer (ErrorUse _ _) req = Next"

text \<open>
  The router's walk down the list: the names of the layers it called, in order, and
  the response. With an error pending it skips to the next error handler. \<^term>\<open>None\<close>:
  the list ran out and Express's own final handler answers.
\<close>

fun dispatch :: "layer list \<Rightarrow> http_error option \<Rightarrow> request \<Rightarrow> string list \<times> response option" where
  "dispatch [] pending req = ([], None)"
| "dispatch (ErrorUse n h # ls) (Some err) req = ([n], Some (h err))"
| "dispatch (l # ls) (Some err) req = dispatch ls (Some err) req"
| "dispatch (l # ls) None req =
     (if takes l req
      then (case run_layer l req of
              Respond r \<Rightarrow> ([layer_name l], Some r)
            | Next \<Rightarrow>
                (case dispatch ls None req of (tr, r) \<Rightarrow> (layer_name l # tr, r))
            | NextErr err \<Rightarrow>
                (case dispatch ls (Some err) req of (tr, r) \<Rightarrow> (layer_name l # tr, r)))
      else dispatch ls None req)"

text \<open>
  The process environment, the middleware of other packages and the outcome of the
  route handlers that talk to the upstream daemon, by name.
\<close>

record env =
  NODE_ENV :: "string option"
  API_KEY :: "string option"
  FORCE_HTTPS :: "string option"
  ENABLE_SWAGGER :: "string option"
  third_party :: "string \<Rightarrow> request \<Rightarrow> action"
  handler :: "string \<Rightarrow> request \<Rightarrow> action"

text \<open>Everything registered ahead of the first not-found middleware.\<close>

definition before_not_found :: "env \<Rightarrow> layer list" where
  "before_not_found e =
     [Use ''pinoHttp'' None (third_party e ''pinoHttp''),
      Use ''helmet'' None (third_party e ''helmet''),
      Use ''cors'' None (third_party e ''cors''),
      Route ''OPTIONS *'' OPTIONS ''*'' (third_party e ''cors (preflight)''),
      Use ''rateLimit'' None (third_party e ''rateLimit''),
      Use ''express.json'' None (third_party e ''express.json''),
      Use ''express.urlencoded'' None (third_party e ''express.urlencoded''),
      Use ''compression'' None (third_party e ''compression'')]
     @ (if NODE_ENV e = Some ''production'' \<and> FORCE_HTTPS e = Some ''true''
        then [Use ''force https'' None force_https] else [])
     @ [Use ''apiKeyAuth'' (Some ''/api'') (apiKeyAuth (API_KEY e))]
     @ (if ENABLE_SWAGGER e \<noteq> Some ''false''
        then [Use ''swagger'' (Some ''/api-docs'') (third_party e ''swagger'')] else [])
     @ [Use ''express.static'' None (third_party e ''express.static''),
        Route ''GET /health'' GET ''/health'' health,
        Route ''GET /api/endpoints'' GET ''/api/endpoints'' (handler e ''GET /api/endpoints''),
        Route ''POST /api/set-endpoint'' POST ''/api/set-endpoint''
              (handler e ''POST /api/set-endpoint''),
        ErrorUse ''centralized error handler'' (centralized_error_handler (NODE_ENV e))]"

text \<open>The first not-found middleware and everything registered after it.\<close>

definition from_not_found :: "env \<Rightarrow> layer list" where
  "from_not_found e =
     [Use ''404 handler'' None not_found,
      Route ''GET /api/models'' GET ''/api/models'' (handler e ''GET /api/models''),
      Route ''DELETE /api/models'' DELETE ''/api/models'' (handler e ''DELETE /api/models''),
      Route ''POST /api/pull'' POST ''/api/pull'' (handler e ''POST /api/pull''),
      Route ''GET /api/ps'' GET ''/api/ps'' (handler e ''GET /api/ps''),
      Use ''404 handler (second)'' None not_found,
      ErrorUse ''global error handler'' (global_error_handler (NODE_ENV e)),
      Route ''POST /api/update-model'' POST ''/api/update-model''
            (handler e ''POST /api/update-model''),
      Route ''GET /health (second)'' GET ''/health'' health,
      Route ''DELETE /api/models (second)'' DELETE ''/api/models''
            (handler e ''DELETE /api/models (second)''),
      Route ''POST /api/pull (second)'' POST ''/api/pull'' (handler e ''POST /api/pull (second)'')]"

definition app_layers :: "env \<Rightarrow> layer list" where
  "app_layers e = before_not_found e @ from_not_found e"

text \<open>The server answers a request.\<close>

definition serve :: "env \<Rightarrow> request \<Rightarrow> string list \<times> response option" where
  "serve e req = dispatch (app_layers e) None req"

text \<open>The names under which the five routes of the claim are registered.\<close>

definition guarded_routes :: "string list" where
  "guarded_routes =
     [''GET /api/models'', ''DELETE /api/models'', ''POST /api/pull'', ''GET /api/ps'',
      ''POST /api/update-model'', ''DELETE /api/models (second)'', ''POST /api/pull (second)'']"

text \<open>A request to one of the five routes.\<close>

definition to_guarded_route :: "request \<Rightarrow> bool" where
  "to_guarded_route req =
     ((meth req, originalUrl req) \<in> set
        [(GET, ''/api/models''), (DELETE, ''/api/models''), (POST, ''/api/pull''),
         (GET, ''/api/ps''), (POST, ''/api/update-model'')])"

text \<open>
  Every layer of the list that takes the request hands it on with \<^verbatim>\<open>next()\<close>.
\<close>

fun lets_through :: "layer list \<Rightarrow> request \<Rightarrow> bool" where
  "lets_through [] req = True"
| "lets_through (l # ls) req =
     ((if takes l req then run_layer l req = Next else True) \<and> lets_through ls req)"

section \<open>The server: bulk delete\<close>

text \<open>
  What \<^verbatim>\<open>Promise.allSettled\<close> reports for one upstream delete: fulfilled, or
  rejected with \<^verbatim>\<open>reason.message\<close>.
\<close>

datatype settled = Fulfilled | Rejected string

text \<open>
  The \<^verbatim>\<open>failed\<close> array. A target is the model name of the request together with
  what the upstream did to it; an item stays when its \<^verbatim>\<open>error\<close> is truthy.
\<close>

fun item_error :: "settled \<Rightarrow> string option" where
  "item_error (Rejected msg) = Some msg"
| "item_error Fulfilled = None"

fun item_kept :: "string \<times> string option \<Rightarrow> bool" where
  "item_kept (model, Some msg) = truthy msg"
| "item_kept (model, None) = False"

definition failed_items :: "(string \<times> settled) list \<Rightarrow> (string \<times> string option) list" where
  "failed_items targets = filter item_kept (map (\<lambda>(model, r). (model, item_error r)) targets)"

fun item_json :: "string \<times> string option \<Rightarrow> json" where
  "item_json (model, Some msg) = JObj [(''model'', JStr model), (''error'', JStr msg)]"
| "item_json (model, None) = JObj [(''model'', JStr model), (''error'', JNull)]"

text \<open>The first \<^verbatim>\<open>app.delete('/api/models', ...)\<close>, for a body whose \<^verbatim>\<open>models\<close> is an array of strings.\<close>

definition delete_models :: "(string \<times> settled) list \<Rightarrow> action" where
  "delete_models targets =
     (if targets = [] then NextErr (createError 400 (Some ''No models specified for deletion'') [])
      else if failed_items targets \<noteq> []
      then NextErr (createError 207 None
             [(''success'', JBool True),
              (''message'', JStr ''Some models could not be deleted''),
              (''failed'', JArr (map item_json (failed_items targets))),
              (''deleted'', JNum (int (length targets) - int (length (failed_items targets))))])
      else Respond (Json_response 200
             (JObj [(''success'', JBool True),
                    (''message'', JStr ''Models deleted successfully''),
                    (''count'', JNum (int (length targets)))])))"

text \<open>The second \<^verbatim>\<open>app.delete('/api/models', ...)\<close>.\<close>

definition delete_models_second :: "(string \<times> settled) list \<Rightarrow> action" where
  "delete_models_second targets =
     (if targets = [] then NextErr (createError 400 (Some ''No models specified for deletion'') [])
      else if failed_items targets \<noteq> []
      then (if length (failed_items targets) = length targets
            then NextErr (createError 500 None
                   [(''success'', JBool False),
                    (''message'', JStr ''Failed to delete all models''),
                    (''failed'', JArr (map item_json (failed_items targets)))])
            else Respond (Json_response 207
                   (JObj [(''success'', JBool True),
                          (''message'', JStr ''Some models could not be deleted''),
                          (''failed'', JArr (map item_json (failed_items targets))),
                          (''deleted'',
                           JNum (int (length targets) - int (length (failed_items targets))))])))
      else Respond (Json_response 200
             (JObj [(''success'', JBool True),
                    (''message'', JStr ''Models deleted successfully''),
                    (''count'', JNum (int (length targets)))])))"

text \<open>
  The response to a request whose route handler did \<open>a\<close>, when \<open>h\<close> is the next error
  handler down the list.
\<close>

fun answer :: "(http_error \<Rightarrow> response) \<Rightarrow> action \<Rightarrow> response option" where
  "answer h (Respond r) = Some r"
| "answer h (NextErr err) = Some (h err)"
| "answer h Next = None"

text \<open>The keys of a response body.\<close>

fun body_keys :: "response \<Rightarrow> string list" where
  "body_keys (Json_response _ (JObj kvs)) = map fst kvs"
| "body_keys _ = []"

fun body_field :: "response \<Rightarrow> string \<Rightarrow> json option" where
  "body_field (Json_response _ (JObj kvs)) k = map_of kvs k"
| "body_field _ k = None"

section \<open>The server: the end of a relayed stream\<close>

text \<open>
  The downstream response while a stream is relayed: whether its headers are out,
  what has been written to it, raw upstream bytes or a JSON text of the server's, and
  whether it has been ended.
\<close>

datatype body_part = Raw string | Json_text json

record res_state =
  headersSent :: bool
  written :: "body_part list"
  ended :: bool

text \<open>
  The response when the relay starts: the routes have called \<^verbatim>\<open>res.setHeader\<close>
  only, which sends nothing.
\<close>

definition fresh_res :: res_state where
  "fresh_res = \<lparr>headersSent = False, written = [], ended = False\<rparr>"

text \<open>
  \<^verbatim>\<open>res.write(chunk)\<close> and \<^verbatim>\<open>res.end(data)\<close> of Node's
  \<^verbatim>\<open>http.ServerResponse\<close>: both send the headers when they are not out yet;
  \<^verbatim>\<open>end\<close> writes its argument, if it has one, and finishes the response.
  Nothing is added to a response that is finished.
\<close>

definition res_write :: "string \<Rightarrow> res_state \<Rightarrow> res_state" where
  "res_write chunk res =
     (if ended res then res
      else res\<lparr>headersSent := True, written := written res @ [Raw chunk]\<rparr>)"

definition res_end :: "body_part option \<Rightarrow> res_state \<Rightarrow> res_state" where
  "res_end data res =
     (if ended res then res
      else res\<lparr>headersSent := True,
               written := written res @ (case data of None \<Rightarrow> [] | Some d \<Rightarrow> [d]),
               ended := True\<rparr>)"

text \<open>The events of the upstream stream \<^verbatim>\<open>response.data\<close> when it ends cleanly.\<close>

datatype stream_event = Data string | End

text \<open>
  \<^verbatim>\<open>response.data.pipe(res)\<close> registers two listeners of its own on the upstream
  stream: on \<^verbatim>\<open>'data'\<close> the chunk goes to \<^verbatim>\<open>res.write\<close>, on
  \<^verbatim>\<open>'end'\<close> it calls \<^verbatim>\<open>res.end()\<close>.
\<close>

definition pipe_listener :: "stream_event \<Rightarrow> res_state \<Rightarrow> res_state" where
  "pipe_listener ev res =
     (case ev of Data chunk \<Rightarrow> res_write chunk res | End \<Rightarrow> res_end None res)"

text \<open>The \<^verbatim>\<open>'end'\<close> listener of the first \<^verbatim>\<open>/api/pull\<close> route.\<close>

definition pull_on_end :: "string \<Rightarrow> res_state \<Rightarrow> res_state" where
  "pull_on_end model res =
     (if \<not> headersSent res
      then res_end (Some (Json_text (JObj [(''status'', JStr ''success''),
                                           (''model'', JStr model)]))) res
      else res)"

text \<open>
  The \<^verbatim>\<open>operation\<close> argument of \<^verbatim>\<open>handleModelOperation\<close>, and its
  \<^verbatim>\<open>'end'\<close> listener.
\<close>

record operation =
  op_model :: string
  op_type :: "string option"

definition operation_on_end :: "operation \<Rightarrow> res_state \<Rightarrow> res_state" where
  "operation_on_end op res =
     (if \<not> headersSent res
      then res_end (Some (Json_text (JObj [(''status'', JStr ''success''),
                                           (''model'', JStr (op_model op)),
                                           (''operation'', JStr (js_or (op_type op) ''pull''))])))
             res
      else res)"

text \<open>The operations the two callers pass: \<^verbatim>\<open>/api/update-model\<close> and the second \<^verbatim>\<open>/api/pull\<close>.\<close>

definition update_operation :: "string \<Rightarrow> operation" where
  "update_operation modelName = \<lparr>op_model = modelName, op_type = Some ''update''\<rparr>"

definition pull_operation :: "string \<Rightarrow> operation" where
  "pull_operation model = \<lparr>op_model = model, op_type = Some ''pull''\<rparr>"

text \<open>
  A listener registered with \<^verbatim>\<open>response.data.on('end', f)\<close>: it runs on
  \<^verbatim>\<open>'end'\<close> only.
\<close>

definition end_listener ::
  "(res_state \<Rightarrow> res_state) \<Rightarrow> stream_event \<Rightarrow> res_state \<Rightarrow> res_state" where
  "end_listener f ev res = (case ev of Data chunk \<Rightarrow> res | End \<Rightarrow> f res)"

text \<open>\<^verbatim>\<open>emit\<close>: the listeners of an event run in the order of their registration.\<close>

definition emit ::
  "(stream_event \<Rightarrow> res_state \<Rightarrow> res_state) list \<Rightarrow> stream_event \<Rightarrow> res_state \<Rightarrow> res_state" where
  "emit listeners ev res = foldl (\<lambda>r l. l ev r) res listeners"

text \<open>
  A relay whose upstream stream yields \<open>chunks\<close> and ends cleanly. Both routes call
  \<^verbatim>\<open>response.data.pipe(res)\<close> first and register their own
  \<^verbatim>\<open>'end'\<close> listener after it (the \<^verbatim>\<open>'error'\<close> listener between the two
  never runs on a clean end).
\<close>

definition relay :: "(res_state \<Rightarrow> res_state) \<Rightarrow> string list \<Rightarrow> res_state" where
  "relay on_end chunks =
     foldl (\<lambda>res ev. emit [pipe_listener, end_listener on_end] ev res) fresh_res
       (map Data chunks @ [End])"

text \<open>The record of the specification.\<close>

definition success_record :: "string \<Rightarrow> body_part" where
  "success_record model = Json_text (JObj [(''status'', JStr ''success''), (''model'', JStr model)])"

section \<open>The server: the active endpoint\<close>

text \<open>
  \<^verbatim>\<open>POST /api/set-endpoint\<close>. \<open>isURL\<close> is the validator of express-validator,
  \<open>probe\<close> the outcome of \<^verbatim>\<open>axios.get(endpoint + '/api/tags')\<close>: \<^term>\<open>None\<close> when
  it resolves, the error's message when it rejects. The argument \<open>ollamaEndpoint\<close>
  is the variable of that name before the request, the first component of the result
  is the variable after it. \<open>endpoint\<close> is the field of the request body, absent or
  a string.
\<close>

definition set_endpoint ::
  "(string \<Rightarrow> bool) \<Rightarrow> (string \<Rightarrow> string option) \<Rightarrow> string \<Rightarrow> string option \<Rightarrow> string \<times> action" where
  "set_endpoint isURL probe ollamaEndpoint endpoint =
     (case endpoint of
        None \<Rightarrow> (ollamaEndpoint, NextErr (createError 400 None [(''errors'', JOpaque)]))
      | Some ep \<Rightarrow>
          if \<not> isURL ep
          then (ollamaEndpoint, NextErr (createError 400 None [(''errors'', JOpaque)]))
          else (case probe ep of
                  Some msg \<Rightarrow>
                    (ollamaEndpoint,
                     NextErr (createError 400 (Some (''Failed to connect to endpoint: '' @ msg)) []))
                | None \<Rightarrow>
                    (ep,
                     Respond (Json_response 200
                       (JObj [(''success'', JBool True),
                              (''message'', JStr ''Endpoint set successfully''),
                              (''endpoint'', JStr ep)])))))"

text \<open>
  The route as the client sees it: the error handler that follows it in the stack is
  the centralized one.
\<close>

definition set_endpoint_route ::
  "string option \<Rightarrow> (string \<Rightarrow> bool) \<Rightarrow> (string \<Rightarrow> string option) \<Rightarrow> string \<Rightarrow> string option
   \<Rightarrow> string \<times> response option" where
  "set_endpoint_route node_env isURL probe ollamaEndpoint endpoint =
     (case set_endpoint isURL probe ollamaEndpoint endpoint of
        (ollamaEndpoint', a) \<Rightarrow> (ollamaEndpoint', answer (centralized_error_handler node_env) a))"

section \<open>Vocabulary of the properties\<close>

subsection \<open>Chunks and lines\<close>

text \<open>
  A list of chunks whose boundaries all fall right after a newline: every chunk but
  the last is empty or ends with the delimiter.
\<close>

fun line_aligned :: "string list \<Rightarrow> bool" where
  "line_aligned [] = True"
| "line_aligned [c] = True"
| "line_aligned (c # cs) = ((c = [] \<or> last c = nl) \<and> line_aligned cs)"

text \<open>The lines the loops of a consumer go through: each chunk split on its own.\<close>

definition lines_of :: "string list \<Rightarrow> string list" where
  "lines_of chunks = concat (map split_nl chunks)"

text \<open>Those of them that \<^verbatim>\<open>JSON.parse\<close> accepts.\<close>

definition parsed_lines :: "parser \<Rightarrow> string list \<Rightarrow> string list" where
  "parsed_lines P chunks = filter (\<lambda>l. P l \<noteq> None) (lines_of chunks)"

subsection \<open>Traces\<close>

text \<open>The labels of the repaints of a trace, in order.\<close>

definition labels :: "event list \<Rightarrow> string list" where
  "labels evs = map label (renders evs)"

text \<open>A repaint that leaves the second element alone, and the labels of those.\<close>

fun is_plain_render :: "event \<Rightarrow> bool" where
  "is_plain_render (Render None _) = True"
| "is_plain_render _ = False"

definition plain_labels :: "event list \<Rightarrow> string list" where
  "plain_labels evs = map label (filter is_plain_render evs)"

text \<open>
  Two repaints in a row, \<open>a\<close> then \<open>b\<close>: \<open>b\<close> is the repaint of a download, or its
  label is not the label of \<open>a\<close>.
\<close>

definition repaint_ok :: "event \<Rightarrow> event \<Rightarrow> bool" where
  "repaint_ok a b = (if is_plain_render b then label a \<noteq> label b else True)"

text \<open>
  The repaints of the page's pull loop from \<open>lastStatus = s\<close>: the invariant that
  carries the rule from one turn to the next.
\<close>

definition pull_trace_ok :: "string \<Rightarrow> event list \<Rightarrow> bool" where
  "pull_trace_ok s R =
     (successively repaint_ok R
      \<and> (case R of [] \<Rightarrow> True | b # _ \<Rightarrow> if is_plain_render b then label b \<noteq> s else True)
      \<and> list_all (\<lambda>e. if is_plain_render e then label e \<noteq> ''downloading''
                       else label e = ''downloading'') R)"

subsection \<open>Streams of the examples\<close>

text \<open>Lines and records of the examples.\<close>

definition line_downloading :: string where
  "line_downloading = ''{\"status\":\"downloading\",\"completed\":1,\"total\":2}''"

definition line_success :: string where
  "line_success = ''{\"status\":\"success\"}''"

definition line_manifest :: string where
  "line_manifest = ''{\"status\":\"writing manifest\"}''"

definition line_disk_full :: string where
  "line_disk_full = ''{\"status\":\"error\",\"error\":\"disk full\"}''"

definition line_error :: string where
  "line_error = ''{\"status\":\"error\"}''"


definition record_of :: "string \<Rightarrow> progress" where
  "record_of s = \<lparr>status = s, completed = None, total = None, error = None\<rparr>"

definition downloading_record :: "nat \<Rightarrow> nat \<Rightarrow> progress" where
  "downloading_record c t =
     \<lparr>status = ''downloading'', completed = Some c, total = Some t, error = None\<rparr>"

definition line_nothing_to_download :: string where
  "line_nothing_to_download = ''{\"status\":\"downloading\",\"completed\":0,\"total\":0}''"

text \<open>The stream of the specification's second testable property.\<close>

definition stream_with_bad_line :: string where
  "stream_with_bad_line =
     line_downloading @ [nl] @ ''NOT JSON'' @ [nl] @ line_success @ [nl]"

text \<open>The status sequence of the specification's fifth testable property.\<close>

definition stream_manifest_twice :: string where
  "stream_manifest_twice =
     line_manifest @ [nl] @ line_manifest @ [nl] @ line_success @ [nl]"

text \<open>A line of a complete record cut in two.\<close>

definition cut_chunks :: "string list" where
  "cut_chunks = [''{\"status\":\"suc'', ''cess\"}'' @ [nl]]"

subsection \<open>The server\<close>

text \<open>The names of the error handlers of a stack.\<close>

definition error_names :: "layer list \<Rightarrow> string list" where
  "error_names ls = map layer_name (filter is_error_layer ls)"

text \<open>
  Two environments in which the middleware of other packages hands every request on:
  one without an API key, one with the key \<^verbatim>\<open>secret\<close>.
\<close>

definition env_open :: env where
  "env_open =
     \<lparr>NODE_ENV = None, API_KEY = None, FORCE_HTTPS = None, ENABLE_SWAGGER = None,
      third_party = (\<lambda>name req. Next), handler = (\<lambda>name req. Next)\<rparr>"

definition env_locked :: env where
  "env_locked = env_open\<lparr>API_KEY := Some ''secret''\<rparr>"

text \<open>Requests without an API key header.\<close>

definition request_to :: "http_method \<Rightarrow> string \<Rightarrow> request" where
  "request_to m p =
     \<lparr>meth = m, originalUrl = p, x_api_key = None, x_forwarded_proto = None,
      host = ''localhost:3000''\<rparr>"

text \<open>
  The bulk delete of the specification's sixth testable property: \<^verbatim>\<open>a\<close> is
  deleted, the delete of \<^verbatim>\<open>b\<close> is rejected.
\<close>

definition targets_a_b :: "(string \<times> settled) list" where
  "targets_a_b = [(''a'', Fulfilled), (''b'', Rejected ''boom'')]"

text \<open>The targets the upstream deleted.\<close>

fun is_fulfilled :: "string \<times> settled \<Rightarrow> bool" where
  "is_fulfilled (model, Fulfilled) = True"
| "is_fulfilled (model, Rejected msg) = False"

text \<open>Every rejection carries a message that is not empty, as those of axios do.\<close>

fun has_reason :: "string \<times> settled \<Rightarrow> bool" where
  "has_reason (model, Rejected msg) = truthy msg"
| "has_reason (model, Fulfilled) = True"

section \<open>Splitting and looping\<close>

lemma split_nl_not_Nil: "split_nl s \<noteq> []"
  by (induction s) (auto split: list.splits)

lemma split_nl_append_nl: "split_nl (a @ nl # b) = split_nl a @ split_nl b"
proof (induction a)
  case Nil
  show ?case by simp
next
  case (Cons c a)
  obtain l ls where "split_nl a = l # ls"
    using split_nl_not_Nil [of a] by (cases "split_nl a") auto
  with Cons show ?case by simp
qed

lemma split_nl_ends_nl: "split_nl (a @ [nl]) = split_nl a @ [[]]"
  using split_nl_append_nl [of a "[]"] by simp

lemma for_each_append:
  "for_each body s (xs @ ys) =
     (case for_each body s xs of
        (evs, Inl m) \<Rightarrow> (evs, Inl m)
      | (evs, Inr s') \<Rightarrow> (case for_each body s' ys of (evs', r) \<Rightarrow> (evs @ evs', r)))"
  by (induction xs arbitrary: s) (auto split: prod.splits sum.splits)

lemma for_each_concat:
  "for_each (\<lambda>s c. for_each body s (f c)) s cs = for_each body s (concat (map f cs))"
  by (induction cs arbitrary: s) (auto simp: for_each_append split: prod.splits sum.splits)

lemma for_each_boundary:
  assumes blank: "\<And>s. body s [] = ([], Inr s)"
    and a: "a = [] \<or> last a = nl"
  shows "for_each body s (split_nl (a @ b)) = for_each body s (split_nl a @ split_nl b)"
proof (cases "a = []")
  case True
  then show ?thesis by (simp add: blank)
next
  case False
  with a obtain a' where a': "a = a' @ [nl]"
    by (metis append_butlast_last_id)
  have "for_each body s (split_nl a' @ [] # split_nl b) = for_each body s (split_nl a' @ split_nl b)"
    by (simp add: for_each_append blank split: prod.splits sum.splits)
  then show ?thesis
    by (simp add: a' split_nl_append_nl split_nl_ends_nl)
qed

lemma for_each_aligned:
  assumes blank: "\<And>s. body s [] = ([], Inr s)"
  shows "line_aligned cs \<Longrightarrow>
     for_each body s (concat (map split_nl cs)) = for_each body s (split_nl (concat cs))"
proof (induction cs arbitrary: s rule: line_aligned.induct)
  case 1
  show ?case by (simp add: blank)
next
  case (2 c)
  show ?case by simp
next
  case (3 c c' cs)
  then have al: "c = [] \<or> last c = nl" and rest: "line_aligned (c' # cs)" by auto
  have "for_each body s (split_nl (concat (c # c' # cs)))
        = for_each body s (split_nl c @ split_nl (concat (c' # cs)))"
    using for_each_boundary [where body = body and a = c, OF blank al] by simp
  also have "\<dots> = for_each body s (split_nl c @ concat (map split_nl (c' # cs)))"
    using 3(1) [OF rest] by (simp only: for_each_append)
  finally show ?case by simp
qed

lemma blank_not_truthy: "\<not> truthy (js_trim [])"
  by (simp add: js_trim_def truthy_def)

lemma update_line_blank: "update_line P s [] = ([], Inr s)"
  by (simp add: update_line_def blank_not_truthy)

lemma pull_line_blank: "pull_line P f s [] = ([], Inr s)"
  by (simp add: pull_line_def blank_not_truthy)

lemma update_chunks_lines: "update_chunks P s cs = update_lines P s (lines_of cs)"
  by (simp add: update_chunks_def update_lines_def lines_of_def for_each_concat)

lemma pull_chunks_lines: "pull_chunks P f s cs = pull_lines P f s (lines_of cs)"
  by (simp add: pull_chunks_def pull_lines_def lines_of_def for_each_concat)

lemma app_chunks_lines:
  "app_chunks P f cs = app_lines P f (filter (\<lambda>l. truthy (js_trim l)) (lines_of cs))"
  by (induction cs) (simp_all add: app_chunks_def app_chunk_def app_lines_def lines_of_def)

lemma update_chunks_aligned:
  "line_aligned cs \<Longrightarrow> update_chunks P s cs = update_chunks P s [concat cs]"
  using for_each_aligned [of "update_line P" cs s]
  by (simp add: update_chunks_lines lines_of_def update_lines_def update_line_blank)

lemma pull_chunks_aligned:
  "line_aligned cs \<Longrightarrow> pull_chunks P f s cs = pull_chunks P f s [concat cs]"
  using for_each_aligned [of "pull_line P f" cs s]
  by (simp add: pull_chunks_lines lines_of_def pull_lines_def pull_line_blank)

lemma app_chunk_boundary:
  assumes "a = [] \<or> last a = nl"
  shows "app_chunk P f (a @ b) = app_chunk P f a @ app_chunk P f b"
proof (cases "a = []")
  case True
  then show ?thesis by (simp add: app_chunk_def app_lines_def blank_not_truthy)
next
  case False
  with assms obtain a' where a': "a = a' @ [nl]"
    by (metis append_butlast_last_id)
  show ?thesis
    by (simp add: a' app_chunk_def app_lines_def split_nl_append_nl split_nl_ends_nl
        blank_not_truthy)
qed

lemma app_chunks_aligned:
  "line_aligned cs \<Longrightarrow> app_chunks P f cs = app_chunks P f [concat cs]"
proof (induction cs rule: line_aligned.induct)
  case 1
  show ?case by (simp add: app_chunks_def app_chunk_def app_lines_def blank_not_truthy)
next
  case (2 c)
  show ?case by simp
next
  case (3 c c' cs)
  then have al: "c = [] \<or> last c = nl" and rest: "line_aligned (c' # cs)" by auto
  have "app_chunks P f (c # c' # cs) = app_chunk P f c @ app_chunks P f (c' # cs)"
    by (simp add: app_chunks_def)
  also have "\<dots> = app_chunk P f c @ app_chunk P f (concat (c' # cs))"
    using 3(1) [OF rest] by (simp add: app_chunks_def)
  also have "\<dots> = app_chunk P f (c @ concat (c' # cs))"
    using app_chunk_boundary [OF al] by simp
  finally show ?case by (simp add: app_chunks_def)
qed

section \<open>Chunk boundaries\<close>

text \<open>
  Claim C1, as the code has it. No consumer keeps the unfinished end of a chunk for
  the next one: a chunk is decoded, split and looped over by itself, so the loop of
  \<^verbatim>\<open>AppState.pullModel\<close>, \<^verbatim>\<open>processUpdateStream\<close> and the loop of the page's
  \<^verbatim>\<open>pullModel\<close> each run over the pieces of the first chunk, then the pieces of
  the second, and so on (the last three equations). So the events of a stream do not
  depend on how it is cut into chunks as long as every cut falls right after a
  newline: for such a list of chunks the three loops give the events, the final state
  and the closing events they give for the whole payload in one chunk.
\<close>

theorem C1_line_aligned_chunks:
  "(line_aligned chunks \<longrightarrow>
       app_chunks P formatSize chunks = app_chunks P formatSize [concat chunks]
     \<and> AppState_pullModel P formatSize modelName chunks
         = AppState_pullModel P formatSize modelName [concat chunks]
     \<and> processUpdateStream P chunks = processUpdateStream P [concat chunks]
     \<and> updateModel P chunks = updateModel P [concat chunks]
     \<and> pull_chunks P formatSize [] chunks = pull_chunks P formatSize [] [concat chunks]
     \<and> pullModel P formatSize chunks = pullModel P formatSize [concat chunks])
   \<and> app_chunks P formatSize chunks
       = app_lines P formatSize (filter (\<lambda>l. truthy (js_trim l)) (lines_of chunks))
   \<and> processUpdateStream P chunks = update_lines P [] (lines_of chunks)
   \<and> pull_chunks P formatSize [] chunks = pull_lines P formatSize [] (lines_of chunks)"
proof -
  have aligned: "app_chunks P formatSize chunks = app_chunks P formatSize [concat chunks]
     \<and> AppState_pullModel P formatSize modelName chunks
         = AppState_pullModel P formatSize modelName [concat chunks]
     \<and> processUpdateStream P chunks = processUpdateStream P [concat chunks]
     \<and> updateModel P chunks = updateModel P [concat chunks]
     \<and> pull_chunks P formatSize [] chunks = pull_chunks P formatSize [] [concat chunks]
     \<and> pullModel P formatSize chunks = pullModel P formatSize [concat chunks]"
    if al: "line_aligned chunks"
  proof -
    have app: "app_chunks P formatSize chunks = app_chunks P formatSize [concat chunks]"
      using al by (rule app_chunks_aligned)
    have upd: "update_chunks P [] chunks = update_chunks P [] [concat chunks]"
      using al by (rule update_chunks_aligned)
    have pull: "pull_chunks P formatSize [] chunks = pull_chunks P formatSize [] [concat chunks]"
      using al by (rule pull_chunks_aligned)
    show ?thesis
      unfolding AppState_pullModel_def processUpdateStream_def updateModel_def pullModel_def
      using app upd pull by simp
  qed
  have lines: "app_chunks P formatSize chunks
       = app_lines P formatSize (filter (\<lambda>l. truthy (js_trim l)) (lines_of chunks))
     \<and> processUpdateStream P chunks = update_lines P [] (lines_of chunks)
     \<and> pull_chunks P formatSize [] chunks = pull_lines P formatSize [] (lines_of chunks)"
    by (simp add: app_chunks_lines processUpdateStream_def update_chunks_lines pull_chunks_lines)
  show ?thesis
    using aligned lines by blast
qed

theorem C1_witness:
  "line_aligned [line_downloading @ [nl], line_success @ [nl]]
   \<and> app_chunks parse_record plain_size [line_downloading @ [nl], line_success @ [nl]]
       = app_chunks parse_record plain_size [concat [line_downloading @ [nl], line_success @ [nl]]]
   \<and> processUpdateStream parse_record [line_downloading @ [nl], line_success @ [nl]]
       = processUpdateStream parse_record [concat [line_downloading @ [nl], line_success @ [nl]]]
   \<and> pullModel parse_record plain_size [line_downloading @ [nl], line_success @ [nl]]
       = pullModel parse_record plain_size [concat [line_downloading @ [nl], line_success @ [nl]]]
   \<and> fst (processUpdateStream parse_record [line_downloading @ [nl], line_success @ [nl]])
       = [Render None ''Downloading: 50.0%'', Render None ''success'']"
proof -
  have h: "line_aligned [line_downloading @ [nl], line_success @ [nl]]"
    by code_simp
  have v: "fst (processUpdateStream parse_record [line_downloading @ [nl], line_success @ [nl]])
       = [Render None ''Downloading: 50.0%'', Render None ''success'']"
    by code_simp
  show ?thesis
    using h v
      C1_line_aligned_chunks [of "[line_downloading @ [nl], line_success @ [nl]]"
        parse_record plain_size "[]"]
    by blast
qed

text \<open>
  The claim as it is written fails: the payload of one \<^verbatim>\<open>success\<close> record, cut
  inside the record. In one chunk the record is shown; cut, both pieces fail to parse,
  are logged, and nothing is shown.
\<close>

theorem C1_counterexample:
  "concat cut_chunks = line_success @ [nl]
   \<and> app_chunks parse_record plain_size [line_success @ [nl]]
       = [Render None ''Pull completed successfully'']
   \<and> app_chunks parse_record plain_size cut_chunks
       = [Log ''{\"status\":\"suc'', Log ''cess\"}'']
   \<and> fst (processUpdateStream parse_record [line_success @ [nl]]) = [Render None ''success'']
   \<and> fst (processUpdateStream parse_record cut_chunks)
       = [Log ''{\"status\":\"suc'', Log ''cess\"}'']
   \<and> fst (pull_chunks parse_record plain_size [] [line_success @ [nl]])
       = [Render None ''success'']
   \<and> fst (pull_chunks parse_record plain_size [] cut_chunks)
       = [Log ''{\"status\":\"suc'', Log ''cess\"}'']"
  by code_simp

section \<open>Lines that do not parse\<close>

lemma renders_append: "renders (xs @ ys) = renders xs @ renders ys"
  by (simp add: renders_def)

lemma renders_Log: "renders (Log l # evs) = renders evs"
  by (simp add: renders_def)

lemma update_line_unparsed:
  "P l = None \<Longrightarrow> update_line P s l = (if truthy (js_trim l) then [Log l] else [], Inr s)"
  by (simp add: update_line_def update_try_def)

lemma pull_line_unparsed:
  "P l = None \<Longrightarrow> pull_line P f s l = (if truthy (js_trim l) then [Log l] else [], Inr s)"
  by (simp add: pull_line_def pull_try_def)

lemma app_line_unparsed: "P l = None \<Longrightarrow> app_line P f l = [Log l]"
  by (simp add: app_line_def app_try_def)

lemma app_line_parsed: "P l = Some d \<Longrightarrow> renders (app_line P f l) = app_line P f l"
  by (simp add: app_line_def app_try_def renders_def)

lemma for_each_unparsed:
  assumes skip: "\<And>s l. P l = None \<Longrightarrow> \<exists>evs. body s l = (evs, Inr s) \<and> renders evs = []"
  shows "renders (fst (for_each body s ls)) = renders (fst (for_each body s (filter (\<lambda>l. P l \<noteq> None) ls)))
       \<and> snd (for_each body s ls) = snd (for_each body s (filter (\<lambda>l. P l \<noteq> None) ls))"
proof (induction ls arbitrary: s)
  case Nil
  show ?case by simp
next
  case (Cons l ls)
  show ?case
  proof (cases "P l")
    case None
    from skip [OF None, of s] obtain evs where b: "body s l = (evs, Inr s)" and r: "renders evs = []"
      by blast
    show ?thesis
      using Cons [of s] None b r by (auto simp: renders_append split: prod.splits)
  next
    case (Some d)
    show ?thesis
    proof (cases "body s l")
      case (Pair evs r)
      show ?thesis
      proof (cases r)
        case (Inl m)
        with Pair Some show ?thesis by simp
      next
        case (Inr s')
        with Pair Some Cons [of s'] show ?thesis
          by (auto simp: renders_append split: prod.splits)
      qed
    qed
  qed
qed

lemma update_lines_unparsed:
  "renders (fst (update_lines P s ls)) = renders (fst (update_lines P s (filter (\<lambda>l. P l \<noteq> None) ls)))
   \<and> snd (update_lines P s ls) = snd (update_lines P s (filter (\<lambda>l. P l \<noteq> None) ls))"
  unfolding update_lines_def
  by (rule for_each_unparsed) (simp add: update_line_unparsed renders_def)

lemma pull_lines_unparsed:
  "renders (fst (pull_lines P f s ls)) = renders (fst (pull_lines P f s (filter (\<lambda>l. P l \<noteq> None) ls)))
   \<and> snd (pull_lines P f s ls) = snd (pull_lines P f s (filter (\<lambda>l. P l \<noteq> None) ls))"
  unfolding pull_lines_def
  by (rule for_each_unparsed) (simp add: pull_line_unparsed renders_def)

lemma app_lines_unparsed:
  "renders (app_lines P f ls) = app_lines P f (filter (\<lambda>l. P l \<noteq> None) ls)"
proof (induction ls)
  case Nil
  show ?case by (simp add: app_lines_def renders_def)
next
  case (Cons l ls)
  then show ?case
    by (cases "P l") (auto simp: app_lines_def renders_append app_line_unparsed app_line_parsed renders_Log)
qed

text \<open>
  Claim C8. A line on which \<^verbatim>\<open>JSON.parse\<close> throws is logged by the
  \<^verbatim>\<open>catch\<close> of its own turn and changes nothing else: the loop goes on with the
  \<^verbatim>\<open>lastStatus\<close> it had. Hence the repaints of a stream, and whether and how
  its loop ends, are those of the lines that parse, whatever the chunks. On the
  stream of the specification both \<^verbatim>\<open>AppState.pullModel\<close> and
  \<^verbatim>\<open>processUpdateStream\<close> log \<^verbatim>\<open>NOT JSON\<close> and show exactly two display
  events, the download at 50 percent and the success.
\<close>

theorem C8_invalid_line_skipped:
  "(P line = None \<and> truthy (js_trim line)
      \<longrightarrow> app_line P formatSize line = [Log line]
          \<and> update_line P lastStatus line = ([Log line], Inr lastStatus))
   \<and> renders (app_chunks P formatSize chunks)
       = app_lines P formatSize (filter (\<lambda>l. truthy (js_trim l)) (parsed_lines P chunks))
   \<and> renders (fst (processUpdateStream P chunks))
       = renders (fst (update_lines P [] (parsed_lines P chunks)))
   \<and> snd (processUpdateStream P chunks) = snd (update_lines P [] (parsed_lines P chunks))
   \<and> app_chunks parse_record plain_size [stream_with_bad_line]
       = [Render (Some ''50%'') ''Downloading: 50% (1 / 2)'', Log ''NOT JSON'',
          Render None ''Pull completed successfully'']
   \<and> renders (app_chunks parse_record plain_size [stream_with_bad_line])
       = [Render (Some ''50%'') ''Downloading: 50% (1 / 2)'',
          Render None ''Pull completed successfully'']
   \<and> processUpdateStream parse_record [stream_with_bad_line]
       = ([Render None ''Downloading: 50.0%'', Log ''NOT JSON'', Render None ''success''],
          Inr ''success'')
   \<and> renders (fst (processUpdateStream parse_record [stream_with_bad_line]))
       = [Render None ''Downloading: 50.0%'', Render None ''success'']"
proof -
  have s: "P line = None \<and> truthy (js_trim line)
      \<longrightarrow> app_line P formatSize line = [Log line]
          \<and> update_line P lastStatus line = ([Log line], Inr lastStatus)"
    by (simp add: app_line_unparsed update_line_unparsed)
  have a: "renders (app_chunks P formatSize chunks)
     = app_lines P formatSize (filter (\<lambda>l. truthy (js_trim l)) (parsed_lines P chunks))"
    by (simp add: app_chunks_lines app_lines_unparsed parsed_lines_def conj_commute)
  have b: "renders (fst (processUpdateStream P chunks))
       = renders (fst (update_lines P [] (parsed_lines P chunks)))
     \<and> snd (processUpdateStream P chunks) = snd (update_lines P [] (parsed_lines P chunks))"
    using update_lines_unparsed [of P "[]" "lines_of chunks"]
    by (simp add: processUpdateStream_def update_chunks_lines parsed_lines_def)
  have c: "app_chunks parse_record plain_size [stream_with_bad_line]
       = [Render (Some ''50%'') ''Downloading: 50% (1 / 2)'', Log ''NOT JSON'',
          Render None ''Pull completed successfully'']"
    by code_simp
  have d: "processUpdateStream parse_record [stream_with_bad_line]
       = ([Render None ''Downloading: 50.0%'', Log ''NOT JSON'', Render None ''success''],
          Inr ''success'')"
    by code_simp
  have e: "renders (app_chunks parse_record plain_size [stream_with_bad_line])
       = [Render (Some ''50%'') ''Downloading: 50% (1 / 2)'',
          Render None ''Pull completed successfully'']
    \<and> renders (fst (processUpdateStream parse_record [stream_with_bad_line]))
       = [Render None ''Downloading: 50.0%'', Render None ''success'']"
    by (simp add: c d renders_def)
  show ?thesis
    using s a b c d e by blast
qed

theorem C8_witness:
  "parse_record ''NOT JSON'' = None \<and> truthy (js_trim ''NOT JSON'')
   \<and> app_line parse_record plain_size ''NOT JSON'' = [Log ''NOT JSON'']
   \<and> update_line parse_record ''Downloading: 50.0%'' ''NOT JSON''
       = ([Log ''NOT JSON''], Inr ''Downloading: 50.0%'')"
proof -
  have h: "parse_record ''NOT JSON'' = None \<and> truthy (js_trim ''NOT JSON'')"
    by code_simp
  show ?thesis
    using h C8_invalid_line_skipped [of parse_record "''NOT JSON''" plain_size
        "''Downloading: 50.0%''"]
    by blast
qed

section \<open>Errors reported by the stream\<close>

text \<open>
  An \<^verbatim>\<open>error\<close> record with a message of its own: the error thrown for it is
  caught by the \<^verbatim>\<open>catch\<close> of the same turn, which throws again only an error
  whose message is the default one.
\<close>

lemma pull_line_custom_error:
  assumes "P line = Some u" "truthy (js_trim line)" "status u = ''error''"
    "error u = Some m" "truthy m" "m \<noteq> ''Pull failed''"
  shows "pull_line P f lastStatus line = ([Log line], Inr lastStatus)"
  using assms by (simp add: pull_line_def pull_try_def)

lemma update_line_custom_error:
  assumes "P line = Some u" "truthy (js_trim line)" "status u = ''error''"
    "error u = Some m" "truthy m" "m \<noteq> ''Update failed''"
  shows "update_line P lastStatus line = ([Log line], Inr lastStatus)"
  using assms by (simp add: update_line_def update_try_def handleUpdateStatus_def)

text \<open>
  Claim C2 asks that the record \<^verbatim>\<open>{"status":"error","error":"disk full"}\<close>
  ends the stream with the error \<^verbatim>\<open>disk full\<close>. The page's \<^verbatim>\<open>pullModel\<close>
  and \<^verbatim>\<open>updateModel\<close> log the line, go on to the next one, show its
  \<^verbatim>\<open>success\<close> and close with the text of a completed operation. Only a record
  without an \<^verbatim>\<open>error\<close> field stops the loop and is reported.
  \<^verbatim>\<open>AppState.pullModel\<close> has no branch for the status \<^verbatim>\<open>error\<close>: the record
  changes nothing and the pull ends with the toast of a success.
\<close>

theorem C2_error_message_swallowed:
  "pullModel parse_record plain_size [line_disk_full @ [nl] @ line_success @ [nl]]
     = [Render None ''Starting pull...'', Log line_disk_full, Render None ''success'',
        Render None ''Pull complete'']
   \<and> updateModel parse_record [line_disk_full @ [nl] @ line_success @ [nl]]
     = [Render None ''Starting update...'', Log line_disk_full, Render None ''success'',
        Render None ''Update complete'']
   \<and> pullModel parse_record plain_size [line_error @ [nl] @ line_success @ [nl]]
     = [Render None ''Starting pull...'', Render None ''Error: Pull failed'']
   \<and> updateModel parse_record [line_error @ [nl] @ line_success @ [nl]]
     = [Render None ''Starting update...'', Render None ''Error: Update failed'']
   \<and> AppState_pullModel parse_record plain_size ''m''
         [line_disk_full @ [nl] @ line_success @ [nl]]
     = [Render (Some ''0%'') ''Initializing...'', Render None ''Pull completed successfully'',
        Toast ''Successfully pulled m'' ''success'']"
  by code_simp

section \<open>Labels\<close>




section \<open>Repaints\<close>

lemma labels_append: "labels (xs @ ys) = labels xs @ labels ys"
  by (simp add: labels_def renders_def)

lemma plain_labels_append: "plain_labels (xs @ ys) = plain_labels xs @ plain_labels ys"
  by (simp add: plain_labels_def)

lemma update_line_cases:
  assumes "update_line P s l = (evs, r)"
  shows "(renders evs = [] \<and> r = Inr s)
       \<or> (\<exists>n. n \<noteq> s \<and> evs = [Render None n] \<and> r = Inr n)
       \<or> (evs = [] \<and> (\<exists>m. r = Inl m))"
  using assms
  by (auto simp: update_line_def update_try_def renders_def
      split: if_splits option.splits sum.splits exn.splits)

lemma update_lines_distinct:
  "for_each (update_line P) s ls = (evs, r) \<Longrightarrow> distinct_adj (s # labels evs)"
proof (induction ls arbitrary: s evs r)
  case Nil
  then show ?case by (simp add: labels_def renders_def)
next
  case (Cons l ls)
  obtain e1 r1 where b: "update_line P s l = (e1, r1)"
    by (cases "update_line P s l")
  from update_line_cases [OF b] consider
    (quiet) "renders e1 = []" "r1 = Inr s"
    | (paint) n where "n \<noteq> s" "e1 = [Render None n]" "r1 = Inr n"
    | (stop) m where "e1 = []" "r1 = Inl m"
    by blast
  then show ?case
  proof cases
    case quiet
    obtain e2 r2 where t: "for_each (update_line P) s ls = (e2, r2)"
      by (cases "for_each (update_line P) s ls")
    from Cons.prems b quiet t have "evs = e1 @ e2" by simp
    with Cons.IH [OF t] quiet show ?thesis
      by (simp add: labels_def renders_def)
  next
    case paint
    obtain e2 r2 where t: "for_each (update_line P) n ls = (e2, r2)"
      by (cases "for_each (update_line P) n ls")
    from Cons.prems b paint t have "evs = Render None n # e2" by simp
    with Cons.IH [OF t] paint show ?thesis
      by (simp add: labels_def renders_def)
  next
    case stop
    with Cons.prems b show ?thesis by (simp add: labels_def renders_def)
  qed
qed

lemma pull_line_cases:
  assumes "pull_line P f s l = (evs, r)"
  shows "(plain_labels evs = [] \<and> r = Inr s)
       \<or> (\<exists>n. n \<noteq> s \<and> n \<noteq> ''downloading'' \<and> evs = [Render None n] \<and> r = Inr n)
       \<or> (evs = [] \<and> (\<exists>m. r = Inl m))"
  using assms
  by (auto simp: pull_line_def pull_try_def plain_labels_def
      split: if_splits option.splits sum.splits exn.splits)

lemma pull_lines_distinct:
  "for_each (pull_line P f) s ls = (evs, r)
   \<Longrightarrow> distinct_adj (s # plain_labels evs) \<and> ''downloading'' \<notin> set (plain_labels evs)"
proof (induction ls arbitrary: s evs r)
  case Nil
  then show ?case by (simp add: plain_labels_def)
next
  case (Cons l ls)
  obtain e1 r1 where b: "pull_line P f s l = (e1, r1)"
    by (cases "pull_line P f s l")
  from pull_line_cases [OF b] consider
    (quiet) "plain_labels e1 = []" "r1 = Inr s"
    | (paint) n where "n \<noteq> s" "n \<noteq> ''downloading''" "e1 = [Render None n]" "r1 = Inr n"
    | (stop) m where "e1 = []" "r1 = Inl m"
    by blast
  then show ?case
  proof cases
    case quiet
    obtain e2 r2 where t: "for_each (pull_line P f) s ls = (e2, r2)"
      by (cases "for_each (pull_line P f) s ls")
    from Cons.prems b quiet t have "evs = e1 @ e2" by simp
    with Cons.IH [OF t] quiet show ?thesis
      by (simp add: plain_labels_append)
  next
    case paint
    obtain e2 r2 where t: "for_each (pull_line P f) n ls = (e2, r2)"
      by (cases "for_each (pull_line P f) n ls")
    from Cons.prems b paint t have "evs = Render None n # e2" by simp
    with Cons.IH [OF t] paint show ?thesis
      by (simp add: plain_labels_def)
  next
    case stop
    with Cons.prems b show ?thesis by (simp add: plain_labels_def)
  qed
qed

lemma pull_line_shape:
  assumes "pull_line P f s l = (evs, r)"
  shows "(renders evs = [] \<and> r = Inr s)
       \<or> (\<exists>aux. evs = [Render (Some aux) ''downloading''] \<and> r = Inr s)
       \<or> (\<exists>n. n \<noteq> s \<and> n \<noteq> ''downloading'' \<and> evs = [Render None n] \<and> r = Inr n)
       \<or> (evs = [] \<and> (\<exists>m. r = Inl m))"
  using assms
  by (auto simp: pull_line_def pull_try_def renders_def
      split: if_splits option.splits sum.splits exn.splits)

lemma pull_trace_download:
  assumes "pull_trace_ok s R"
  shows "pull_trace_ok s (Render (Some aux) ''downloading'' # R)"
  using assms
  by (cases R) (auto simp: pull_trace_ok_def repaint_ok_def split: if_splits)

lemma pull_trace_plain:
  assumes "pull_trace_ok n R" "n \<noteq> s" "n \<noteq> ''downloading''"
  shows "pull_trace_ok s (Render None n # R)"
  using assms
  by (cases R) (auto simp: pull_trace_ok_def repaint_ok_def split: if_splits)

lemma pull_lines_trace:
  "for_each (pull_line P f) s ls = (evs, r) \<Longrightarrow> pull_trace_ok s (renders evs)"
proof (induction ls arbitrary: s evs r)
  case Nil
  then show ?case by (simp add: pull_trace_ok_def renders_def)
next
  case (Cons l ls)
  obtain e1 r1 where b: "pull_line P f s l = (e1, r1)"
    by (cases "pull_line P f s l")
  from pull_line_shape [OF b] consider
    (quiet) "renders e1 = []" "r1 = Inr s"
    | (download) aux where "e1 = [Render (Some aux) ''downloading'']" "r1 = Inr s"
    | (paint) n where "n \<noteq> s" "n \<noteq> ''downloading''" "e1 = [Render None n]" "r1 = Inr n"
    | (stop) m where "e1 = []" "r1 = Inl m"
    by blast
  then show ?case
  proof cases
    case quiet
    obtain e2 r2 where t: "for_each (pull_line P f) s ls = (e2, r2)"
      by (cases "for_each (pull_line P f) s ls")
    from Cons.prems b quiet t have "evs = e1 @ e2" by simp
    with Cons.IH [OF t] quiet show ?thesis
      by (simp add: renders_append)
  next
    case download
    obtain e2 r2 where t: "for_each (pull_line P f) s ls = (e2, r2)"
      by (cases "for_each (pull_line P f) s ls")
    from Cons.prems b download t have "evs = Render (Some aux) ''downloading'' # e2" by simp
    with pull_trace_download [OF Cons.IH [OF t]] show ?thesis
      by (simp add: renders_def)
  next
    case paint
    obtain e2 r2 where t: "for_each (pull_line P f) n ls = (e2, r2)"
      by (cases "for_each (pull_line P f) n ls")
    from Cons.prems b paint t have "evs = Render None n # e2" by simp
    with pull_trace_plain [OF Cons.IH [OF t] paint(1,2)] show ?thesis
      by (simp add: renders_def)
  next
    case stop
    with Cons.prems b show ?thesis by (simp add: pull_trace_ok_def renders_def)
  qed
qed

lemma pull_chunks_repaints:
  "successively repaint_ok (renders (fst (pull_chunks P f [] chunks)))"
  using pull_lines_trace [of P f "[]" "lines_of chunks"
      "fst (pull_chunks P f [] chunks)" "snd (pull_chunks P f [] chunks)"]
  by (simp add: pull_chunks_lines pull_lines_def pull_trace_ok_def)

lemma distinct_adj_tail: "distinct_adj (x # xs) \<Longrightarrow> distinct_adj xs"
  by (cases xs) simp_all

text \<open>
  Claim C6 says that every \<^verbatim>\<open>downloading\<close> record repaints. In
  \<^verbatim>\<open>processUpdateStream\<close> it does not: two records with the same progress give
  the same label, and the second one is not shown again.
\<close>

theorem C6_counterexample:
  "fst (processUpdateStream parse_record [line_downloading @ [nl] @ line_downloading @ [nl]])
     = [Render None ''Downloading: 50.0%'']"
  by code_simp

text \<open>
  Claim C6, as the code has it. In the page's \<^verbatim>\<open>pullModel\<close> every
  \<^verbatim>\<open>downloading\<close> record repaints and leaves \<^verbatim>\<open>lastStatus\<close> alone; any
  other record that is not an error repaints exactly when its status differs from
  \<^verbatim>\<open>lastStatus\<close>. So such a repaint never carries the label of the repaint before
  it, and no two of them in a row carry the same label even with downloads in
  between. In \<^verbatim>\<open>processUpdateStream\<close>
  every record that is not an error, a \<^verbatim>\<open>downloading\<close> one included, repaints
  exactly when its label differs from \<^verbatim>\<open>lastStatus\<close>, so that no two repaints in a
  row carry the same label. The statuses \<^verbatim>\<open>writing manifest\<close>,
  \<^verbatim>\<open>writing manifest\<close>, \<^verbatim>\<open>success\<close> give two repaints in both.
\<close>

theorem C6_repaint_rule:
  "(P line = Some u \<and> truthy (js_trim line) \<and> status u = ''downloading''
      \<longrightarrow> (\<exists>aux. pull_line P formatSize lastStatus line
                  = ([Render (Some aux) ''downloading''], Inr lastStatus)))
   \<and> (P line = Some u \<and> truthy (js_trim line) \<and> status u \<notin> set [''error'', ''downloading'']
      \<longrightarrow> pull_line P formatSize lastStatus line
           = (if status u \<noteq> lastStatus then ([Render None (status u)], Inr (status u))
              else ([], Inr lastStatus)))
   \<and> (P line = Some u \<and> truthy (js_trim line) \<and> handleUpdateStatus u = Inr lbl
      \<longrightarrow> update_line P lastStatus line
           = (if lbl \<noteq> lastStatus then ([Render None lbl], Inr lbl) else ([], Inr lastStatus)))
   \<and> successively repaint_ok (renders (fst (pull_chunks P formatSize [] chunks)))
   \<and> distinct_adj (plain_labels (fst (pull_chunks P formatSize [] chunks)))
   \<and> ''downloading'' \<notin> set (plain_labels (fst (pull_chunks P formatSize [] chunks)))
   \<and> distinct_adj (labels (fst (processUpdateStream P chunks)))
   \<and> fst (pull_chunks parse_record plain_size [] [stream_manifest_twice])
       = [Render None ''writing manifest'', Render None ''success'']
   \<and> fst (processUpdateStream parse_record [stream_manifest_twice])
       = [Render None ''Finalizing update...'', Render None ''success'']"
proof -
  have step: "(P line = Some u \<and> truthy (js_trim line) \<and> status u = ''downloading''
      \<longrightarrow> (\<exists>aux. pull_line P formatSize lastStatus line
                  = ([Render (Some aux) ''downloading''], Inr lastStatus)))
   \<and> (P line = Some u \<and> truthy (js_trim line) \<and> status u \<notin> set [''error'', ''downloading'']
      \<longrightarrow> pull_line P formatSize lastStatus line
           = (if status u \<noteq> lastStatus then ([Render None (status u)], Inr (status u))
              else ([], Inr lastStatus)))
   \<and> (P line = Some u \<and> truthy (js_trim line) \<and> handleUpdateStatus u = Inr lbl
      \<longrightarrow> update_line P lastStatus line
           = (if lbl \<noteq> lastStatus then ([Render None lbl], Inr lbl) else ([], Inr lastStatus)))"
    by (simp add: pull_line_def pull_try_def update_line_def update_try_def)
  have pull: "distinct_adj (plain_labels (fst (pull_chunks P formatSize [] chunks)))
      \<and> ''downloading'' \<notin> set (plain_labels (fst (pull_chunks P formatSize [] chunks)))"
    using pull_lines_distinct [of P formatSize "[]" "lines_of chunks"
        "fst (pull_chunks P formatSize [] chunks)" "snd (pull_chunks P formatSize [] chunks)"]
      distinct_adj_tail [of "[]" "plain_labels (fst (pull_chunks P formatSize [] chunks))"]
    by (simp add: pull_chunks_lines pull_lines_def)
  have upd: "distinct_adj (labels (fst (processUpdateStream P chunks)))"
    using update_lines_distinct [of P "[]" "lines_of chunks"
        "fst (processUpdateStream P chunks)" "snd (processUpdateStream P chunks)"]
      distinct_adj_tail [of "[]" "labels (fst (processUpdateStream P chunks))"]
    by (simp add: processUpdateStream_def update_chunks_lines update_lines_def)
  have ex: "fst (pull_chunks parse_record plain_size [] [stream_manifest_twice])
       = [Render None ''writing manifest'', Render None ''success'']
   \<and> fst (processUpdateStream parse_record [stream_manifest_twice])
       = [Render None ''Finalizing update...'', Render None ''success'']"
    by code_simp
  show ?thesis
    using step pull pull_chunks_repaints [of P formatSize chunks] upd ex by blast
qed

theorem C6_witness:
  "pull_line parse_record plain_size ''success'' line_downloading
     = ([Render (Some ''Downloading: 1 / 2'') ''downloading''], Inr ''success'')
   \<and> pull_line parse_record plain_size [] line_manifest
     = ([Render None ''writing manifest''], Inr ''writing manifest'')
   \<and> pull_line parse_record plain_size ''writing manifest'' line_manifest
     = ([], Inr ''writing manifest'')
   \<and> update_line parse_record ''Finalizing update...'' line_manifest
     = ([], Inr ''Finalizing update...'')
   \<and> update_line parse_record ''Downloading: 50.0%'' line_downloading
     = ([], Inr ''Downloading: 50.0%'')"
proof -
  have v: "pull_line parse_record plain_size ''success'' line_downloading
     = ([Render (Some ''Downloading: 1 / 2'') ''downloading''], Inr ''success'')"
    by code_simp
  have p: "parse_record line_manifest = Some (record_of ''writing manifest'')"
    and q: "parse_record line_downloading = Some (downloading_record 1 2)"
    and t: "truthy (js_trim line_manifest)" "truthy (js_trim line_downloading)"
    and h: "handleUpdateStatus (record_of ''writing manifest'') = Inr ''Finalizing update...''"
      "handleUpdateStatus (downloading_record 1 2) = Inr ''Downloading: 50.0%''"
    by code_simp+
  have s: "status (record_of x) = x" for x
    by (simp add: record_of_def)
  show ?thesis
    using v
      C6_repaint_rule [of parse_record line_manifest "record_of ''writing manifest''"
        plain_size "[]" "''Finalizing update...''"]
      C6_repaint_rule [of parse_record line_manifest "record_of ''writing manifest''"
        plain_size "''writing manifest''" "''Finalizing update...''"]
      C6_repaint_rule [of parse_record line_manifest "record_of ''writing manifest''"
        plain_size "''Finalizing update...''" "''Finalizing update...''"]
      C6_repaint_rule [of parse_record line_downloading "downloading_record 1 2"
        plain_size "''Downloading: 50.0%''" "''Downloading: 50.0%''"]
    by (simp add: p q t h s del: One_nat_def)
qed

section \<open>Double-precision arithmetic\<close>

text \<open>
  Facts about \<^const>\<open>binade\<close>, \<^const>\<open>round_half_even\<close> and
  \<^const>\<open>to_double\<close>: the exponent brackets the number, rounding is to a nearest
  integer, a number in the normal range is rounded with a relative error of at most
  \<open>2\<^sup>-\<^sup>5\<^sup>3\<close>, and an integer below \<open>2\<^sup>5\<^sup>3\<close> is a double.
\<close>

lemma two_powi_pos: "0 < (2::rat) powi k"
  by (simp add: power_int_def)

lemma two_powi_Suc: "(2::rat) powi (k + 1) = 2 * 2 powi k"
  by (simp add: power_int_add)

lemma two_powi_less_iff: "(2::rat) powi m < 2 powi n \<longleftrightarrow> m < n"
proof
  assume "(2::rat) powi m < 2 powi n"
  show "m < n"
  proof (rule ccontr)
    assume "\<not> m < n"
    then have "n \<le> m" by simp
    then have "(2::rat) powi n \<le> 2 powi m"
      by (rule power_int_increasing) simp
    with \<open>(2::rat) powi m < 2 powi n\<close> show False by simp
  qed
next
  assume "m < n"
  then show "(2::rat) powi m < 2 powi n"
    by (rule power_int_strict_increasing) simp
qed

lemma two_powi_le_iff: "(2::rat) powi m \<le> 2 powi n \<longleftrightarrow> m \<le> n"
  using two_powi_less_iff [of n m] by (auto simp: not_less [symmetric])

lemma bitlen_rat_bounds:
  assumes "0 < a"
  shows "(2::rat) powi (bitlen a - 1) \<le> of_int a" "of_int a < (2::rat) powi bitlen a"
proof -
  from assms have l: "1 \<le> bitlen a"
    by (simp add: bitlen_alt_def)
  from bitlen_bounds [OF assms]
  have lo: "2 ^ nat (bitlen a - 1) \<le> a" and hi: "a < 2 ^ nat (bitlen a)"
    by simp_all
  from lo have "(of_int (2 ^ nat (bitlen a - 1)) :: rat) \<le> of_int a"
    by (simp only: of_int_le_iff)
  then show "(2::rat) powi (bitlen a - 1) \<le> of_int a"
    using l by (simp add: power_int_def)
  from hi have "(of_int a :: rat) < of_int (2 ^ nat (bitlen a))"
    by (simp only: of_int_less_iff)
  then show "of_int a < (2::rat) powi bitlen a"
    using l by (simp add: power_int_def)
qed

lemma binade_bounds:
  assumes "0 < q"
  shows "2 powi binade q \<le> q" "q < 2 powi (binade q + 1)"
proof -
  obtain a b where ab: "quotient_of q = (a, b)"
    by (cases "quotient_of q")
  have b: "0 < b" using ab by (rule quotient_of_denom_pos)
  have q: "q = of_int a / of_int b" using ab by (rule quotient_of_div)
  have a: "0 < a"
    using assms b by (simp add: q zero_less_divide_iff)
  let ?d = "bitlen a - bitlen b"
  note A = bitlen_rat_bounds [OF a] and B = bitlen_rat_bounds [OF b]
  have bpos: "0 < (of_int b :: rat)" using b by simp
  have "q < (2::rat) powi bitlen a / 2 powi (bitlen b - 1)"
  proof -
    have "q < (2::rat) powi bitlen a / of_int b"
      unfolding q using A(2) bpos by (simp add: divide_strict_right_mono)
    also have "\<dots> \<le> (2::rat) powi bitlen a / 2 powi (bitlen b - 1)"
      using B(1) two_powi_pos [of "bitlen b - 1"] two_powi_pos [of "bitlen a"]
      by (simp add: frac_le)
    finally show ?thesis .
  qed
  then have up: "q < 2 powi (?d + 1)"
    by (simp add: power_int_diff [symmetric] algebra_simps)
  have "(2::rat) powi (bitlen a - 1) / 2 powi bitlen b < q"
  proof -
    have "(2::rat) powi (bitlen a - 1) / 2 powi bitlen b < 2 powi (bitlen a - 1) / of_int b"
      using B(2) bpos two_powi_pos [of "bitlen a - 1"]
      by (simp add: divide_strict_left_mono)
    also have "\<dots> \<le> q"
      unfolding q using A(1) bpos by (simp add: divide_right_mono)
    finally show ?thesis .
  qed
  then have lo: "2 powi (?d - 1) < q"
    by (simp add: power_int_diff [symmetric] algebra_simps)
  show "2 powi binade q \<le> q"
    using lo by (simp add: binade_def ab Let_def)
  show "q < 2 powi (binade q + 1)"
    using up by (auto simp add: binade_def ab Let_def not_le)
qed

lemma binade_unique:
  assumes "2 powi e \<le> q" "q < 2 powi (e + 1)"
  shows "binade q = e"
proof -
  have q: "0 < q"
    using assms(1) two_powi_pos [of e] by (rule less_le_trans [rotated])
  note B = binade_bounds [OF q]
  have "2 powi binade q < (2::rat) powi (e + 1)"
    using B(1) assms(2) by simp
  then have "binade q < e + 1" by (simp only: two_powi_less_iff)
  moreover have "(2::rat) powi e < 2 powi (binade q + 1)"
    using B(2) assms(1) by simp
  then have "e < binade q + 1" by (simp only: two_powi_less_iff)
  ultimately show ?thesis by simp
qed

lemma round_half_even_near: "\<bar>of_int (round_half_even m) - m\<bar> \<le> 1 / 2"
proof -
  have "of_int \<lfloor>m\<rfloor> \<le> m" "m < of_int \<lfloor>m\<rfloor> + 1"
    by linarith+
  then show ?thesis
    by (auto simp add: round_half_even_def Let_def)
qed

lemma round_half_even_unique:
  assumes "\<bar>m - of_int n\<bar> < 1 / 2"
  shows "round_half_even m = n"
proof -
  have "\<bar>of_int (round_half_even m) - m\<bar> \<le> 1 / 2"
    by (rule round_half_even_near)
  with assms have "\<bar>(of_int (round_half_even m) :: rat) - of_int n\<bar> < 1"
    by linarith
  then have "\<bar>(of_int (round_half_even m - n) :: rat)\<bar> < 1"
    by simp
  then have "\<bar>round_half_even m - n\<bar> < 1"
    by (metis of_int_abs of_int_less_1_iff)
  then show ?thesis by simp
qed

lemma round_half_even_of_int [simp]: "round_half_even (of_int k) = k"
  by (rule round_half_even_unique) simp


lemma to_double_normal:
  assumes e: "2 powi e \<le> q" "q < 2 powi (e + 1)" and range: "- 1022 \<le> e" "e \<le> 1022"
  shows "to_double q = Num (of_int (round_half_even (q / 2 powi (e - 52))) * 2 powi (e - 52))"
proof -
  let ?ulp = "(2::rat) powi (e - 52)"
  let ?n = "round_half_even (q / ?ulp)"
  let ?r = "of_int ?n * ?ulp"
  have ulp: "0 < ?ulp" by (rule two_powi_pos)
  have q: "0 < q"
    using e(1) two_powi_pos [of e] by (rule less_le_trans [rotated])
  have b: "binade q = e"
    using e by (rule binade_unique)
  have near: "\<bar>of_int ?n - q / ?ulp\<bar> \<le> 1 / 2"
    by (rule round_half_even_near)
  have lo: "2 ^ 52 \<le> q / ?ulp"
  proof -
    have "(2::rat) powi e / ?ulp = 2 powi 52"
      by (simp add: power_int_diff [symmetric])
    moreover have "(2::rat) powi e / ?ulp \<le> q / ?ulp"
      using e(1) ulp by (simp add: divide_right_mono)
    ultimately show ?thesis by simp
  qed
  have hi: "q / ?ulp < 2 ^ 53"
  proof -
    have "(2::rat) powi (e + 1) / ?ulp = 2 powi 53"
      by (simp add: power_int_diff [symmetric])
    moreover have "q / ?ulp < (2::rat) powi (e + 1) / ?ulp"
      using e(2) ulp by (simp add: divide_strict_right_mono)
    ultimately show ?thesis by simp
  qed
  have "(of_int ?n :: rat) < q / ?ulp + 1"
    using near by linarith
  also have "\<dots> < 2 ^ 53 + 1"
    using hi by simp
  also have "\<dots> = of_int (2 ^ 53 + 1)"
    by simp
  finally have "?n < 2 ^ 53 + 1"
    by (simp only: of_int_less_iff)
  then have n_hi: "?n \<le> 2 ^ 53"
    by simp
  have "(1::rat) \<le> 2 ^ 52 - 1"
    by simp
  also have "\<dots> \<le> q / ?ulp - 1"
    using lo by simp
  also have "\<dots> < of_int ?n"
    using near by linarith
  finally have "(of_int 0 :: rat) < of_int ?n"
    by simp
  then have n_lo: "0 < ?n"
    by (simp only: of_int_less_iff)
  have r_pos: "0 < ?r"
    using n_lo ulp by simp
  have "?r \<le> of_int (2 ^ 53) * ?ulp"
    using n_hi ulp by (simp only: of_int_le_iff mult_le_cancel_right_pos)
  also have "\<dots> = 2 powi (e + 1)"
  proof -
    have "(2::rat) powi 53 * 2 powi (e - 52) = 2 powi (53 + (e - 52))"
      by (rule power_int_add [symmetric]) simp
    then show ?thesis by (simp add: add.commute)
  qed
  also have "\<dots> \<le> 2 powi 1023"
  proof -
    have "e + 1 \<le> 1023" using range(2) by simp
    then show ?thesis by (simp only: two_powi_le_iff)
  qed
  finally have "2 powi binade ?r \<le> (2::rat) powi 1023"
    using binade_bounds(1) [OF r_pos] by simp
  then have "binade ?r \<le> 1023"
    by (simp only: two_powi_le_iff)
  then show ?thesis
    using q b range(1) by (simp add: to_double_def Let_def max_def)
qed

lemma to_double_certificate:
  assumes "2 powi e \<le> q" "q < 2 powi (e + 1)" "- 1022 \<le> e" "e \<le> 1022"
    and "\<bar>q / 2 powi (e - 52) - of_int n\<bar> < 1 / 2"
  shows "to_double q = Num (of_int n * 2 powi (e - 52))"
  using to_double_normal [OF assms(1-4)] round_half_even_unique [OF assms(5)] by simp

lemma to_double_rel:
  assumes "2 powi (- 1022) \<le> q" "q < 2 powi 1023"
  shows "\<exists>r. to_double q = Num r \<and> \<bar>r - q\<bar> \<le> q / 2 ^ 53"
proof -
  have q: "0 < q"
    using assms(1) two_powi_pos [of "- 1022"] by (rule less_le_trans [rotated])
  define e where "e = binade q"
  have e: "2 powi e \<le> q" "q < 2 powi (e + 1)"
    unfolding e_def using binade_bounds [OF q] by simp_all
  have "(2::rat) powi (- 1022) < 2 powi (e + 1)"
    using assms(1) e(2) by simp
  then have "- 1022 < e + 1"
    by (simp only: two_powi_less_iff)
  then have lo: "- 1022 \<le> e"
    by simp
  have "(2::rat) powi e < 2 powi 1023"
    using assms(2) e(1) by simp
  then have "e < 1023"
    by (simp only: two_powi_less_iff)
  then have hi: "e \<le> 1022"
    by simp
  let ?ulp = "(2::rat) powi (e - 52)"
  let ?n = "round_half_even (q / ?ulp)"
  have ulp: "0 < ?ulp" by (rule two_powi_pos)
  have v: "to_double q = Num (of_int ?n * ?ulp)"
    using e lo hi by (rule to_double_normal)
  have "\<bar>of_int ?n - q / ?ulp\<bar> \<le> 1 / 2"
    by (rule round_half_even_near)
  then have "\<bar>of_int ?n - q / ?ulp\<bar> * ?ulp \<le> 1 / 2 * ?ulp"
    using ulp by (simp only: mult_le_cancel_right_pos)
  moreover have "\<bar>of_int ?n - q / ?ulp\<bar> * ?ulp = \<bar>of_int ?n * ?ulp - q\<bar>"
  proof -
    have "\<bar>of_int ?n - q / ?ulp\<bar> * ?ulp = \<bar>(of_int ?n - q / ?ulp) * ?ulp\<bar>"
      using ulp by (simp add: abs_mult)
    also have "(of_int ?n - q / ?ulp) * ?ulp = of_int ?n * ?ulp - q"
      using ulp by (simp add: field_simps)
    finally show ?thesis .
  qed
  moreover have "1 / 2 * ?ulp = 2 powi e / 2 ^ 53"
  proof -
    have "(2::rat) powi (e - 52) = 2 powi e / 2 powi 52"
      by (rule power_int_diff) simp
    then show ?thesis by simp
  qed
  moreover have "(2::rat) powi e / 2 ^ 53 \<le> q / 2 ^ 53"
    using e(1) by (simp add: divide_right_mono)
  ultimately have "\<bar>of_int ?n * ?ulp - q\<bar> \<le> q / 2 ^ 53"
    by simp
  with v show ?thesis by blast
qed

lemma number_of_exact:
  assumes "n < 2 ^ 53"
  shows "number_of n = Num (of_nat n)"
proof (cases "n = 0")
  case True
  then show ?thesis by (simp add: number_of_def to_double_def)
next
  case False
  let ?q = "of_nat n :: rat"
  have q: "0 < ?q" using False by simp
  define e where "e = binade ?q"
  have e: "2 powi e \<le> ?q" "?q < 2 powi (e + 1)"
    unfolding e_def using binade_bounds [OF q] by simp_all
  have "(1::rat) \<le> ?q" using False by (simp add: Suc_le_eq)
  then have "(2::rat) powi 0 < 2 powi (e + 1)"
    using e(2) by simp
  then have "0 < e + 1"
    by (simp only: two_powi_less_iff)
  then have lo: "0 \<le> e"
    by simp
  have "?q < 2 ^ 53"
    using assms by (metis of_nat_less_iff of_nat_numeral of_nat_power)
  then have "(2::rat) powi e < 2 powi 53"
    using e(1) by simp
  then have "e < 53"
    by (simp only: two_powi_less_iff)
  then have hi: "e \<le> 52"
    by simp
  have ulp: "(2::rat) powi (e - 52) = 1 / 2 ^ nat (52 - e)"
    using hi by (simp add: power_int_def field_simps)
  have "?q / 2 powi (e - 52) = of_int (int n * 2 ^ nat (52 - e))"
    by (simp add: ulp)
  then have "round_half_even (?q / 2 powi (e - 52)) = int n * 2 ^ nat (52 - e)"
    by (simp only: round_half_even_of_int)
  moreover have "to_double ?q
      = Num (of_int (round_half_even (?q / 2 powi (e - 52))) * 2 powi (e - 52))"
    using e lo hi by (intro to_double_normal) simp_all
  ultimately show ?thesis
    by (simp add: number_of_def ulp)
qed


lemma times100_div_certificate:
  fixes a b :: nat
  assumes "a < 2 ^ 53" "b < 2 ^ 53" "0 < b"
    and "2 powi e1 \<le> (of_nat a / of_nat b :: rat)" "(of_nat a / of_nat b :: rat) < 2 powi (e1 + 1)"
      "- 1022 \<le> e1" "e1 \<le> 1022"
      "\<bar>(of_nat a / of_nat b :: rat) / 2 powi (e1 - 52) - of_int n1\<bar> < 1 / 2"
    and "2 powi e2 \<le> (of_int n1 * 2 powi (e1 - 52) * 100 :: rat)"
      "(of_int n1 * 2 powi (e1 - 52) * 100 :: rat) < 2 powi (e2 + 1)"
      "- 1022 \<le> e2" "e2 \<le> 1022"
      "\<bar>(of_int n1 * 2 powi (e1 - 52) * 100 :: rat) / 2 powi (e2 - 52) - of_int n2\<bar> < 1 / 2"
  shows "times100 (js_div (Some a) (Some b)) = Num (of_int n2 * 2 powi (e2 - 52))"
proof -
  have "js_div (Some a) (Some b) = to_double (of_nat a / of_nat b)"
    using assms(1-3) by (simp add: number_of_exact)
  also have "\<dots> = Num (of_int n1 * 2 powi (e1 - 52))"
    using assms(4-8) by (rule to_double_certificate)
  finally show ?thesis
    using to_double_certificate [OF assms(9-13)] by simp
qed

lemma double_23_40:
  "times100 (js_div (Some 23) (Some 40)) = Num (8092405580431359 / 140737488355328)"
  using times100_div_certificate [of 23 40 "- 1" 5179139571476070 5 8092405580431359]
  by simp

lemma double_23_80:
  "times100 (js_div (Some 23) (Some 80)) = Num (8092405580431359 / 281474976710656)"
  using times100_div_certificate [of 23 80 "- 2" 5179139571476070 4 8092405580431359]
  by simp

lemma double_41_80:
  "times100 (js_div (Some 41) (Some 80)) = Num (7212796278210559 / 140737488355328)"
  using times100_div_certificate [of 41 80 "- 1" 4616189618054758 5 7212796278210559]
  by simp

lemma double_1_3:
  "times100 (js_div (Some 1) (Some 3)) = Num (2345624805922133 / 70368744177664)"
  using times100_div_certificate [of 1 3 "- 2" 6004799503160661 5 4691249611844266]
  by simp

lemma double_1_2:
  "times100 (js_div (Some 1) (Some 2)) = Num 50"
  using times100_div_certificate [of 1 2 "- 1" 4503599627370496 5 7036874417766400]
  by simp

lemma to_double_rel_mid:
  assumes "1 / 2 ^ 60 \<le> q" "q < 2 ^ 70"
  shows "\<exists>r. to_double q = Num r \<and> \<bar>r - q\<bar> \<le> q / 2 ^ 53"
proof (rule to_double_rel)
  have "- 1022 \<le> (- 60 :: int)" by simp
  then have "(2::rat) powi (- 1022) \<le> 2 powi (- 60)"
    by (simp only: two_powi_le_iff)
  also have "\<dots> = 1 / 2 ^ 60"
    by simp
  finally show "2 powi (- 1022) \<le> q"
    using assms(1) by simp
  have "(70 :: int) \<le> 1023" by simp
  then have "(2::rat) powi 70 \<le> 2 powi 1023"
    by (simp only: two_powi_le_iff)
  moreover have "(2::rat) powi 70 = 2 ^ 70"
    by simp
  ultimately show "q < 2 powi 1023"
    using assms(2) by simp
qed

lemma to_double_twice:
  assumes q_lo: "1 / 2 ^ 53 \<le> q" and q_hi: "q < 2 ^ 53"
  shows "\<exists>r1 r2. to_double q = Num r1 \<and> to_double (r1 * 100) = Num r2 \<and> 0 \<le> r2
           \<and> \<bar>r2 - q * 100\<bar> \<le> q * 100 / 2 ^ 51"
proof -
  have q_pos: "0 < q"
    using q_lo by (rule less_le_trans [rotated]) simp
  have "\<exists>r. to_double q = Num r \<and> \<bar>r - q\<bar> \<le> q / 2 ^ 53"
  proof (rule to_double_rel_mid)
    show "1 / 2 ^ 60 \<le> q" using q_lo by simp
    show "q < 2 ^ 70" using q_hi by simp
  qed
  then obtain r1 where r1: "to_double q = Num r1" "\<bar>r1 - q\<bar> \<le> q / 2 ^ 53"
    by blast
  have "q / 2 ^ 53 \<le> q / 2"
    using q_pos by simp
  then have r1_near: "\<bar>r1 - q\<bar> \<le> q / 2"
    using r1(2) by (rule order_trans [rotated])
  have r1_lo: "q / 2 \<le> r1"
    using r1_near by linarith
  have r1_hi: "r1 \<le> 2 * q"
    using r1_near q_pos by linarith
  have "\<exists>r. to_double (r1 * 100) = Num r \<and> \<bar>r - r1 * 100\<bar> \<le> r1 * 100 / 2 ^ 53"
  proof (rule to_double_rel_mid)
    show "1 / 2 ^ 60 \<le> r1 * 100" using q_lo r1_lo by simp
    show "r1 * 100 < 2 ^ 70" using q_hi r1_hi by simp
  qed
  then obtain r2 where r2: "to_double (r1 * 100) = Num r2" "\<bar>r2 - r1 * 100\<bar> \<le> r1 * 100 / 2 ^ 53"
    by blast
  have r1_pos: "0 < r1"
    using r1_lo q_pos by linarith
  have "r1 * 100 / 2 ^ 53 \<le> r1 * 100"
    using r1_pos by simp
  then have "\<bar>r2 - r1 * 100\<bar> \<le> r1 * 100"
    using r2(2) by (rule order_trans [rotated])
  then have "0 \<le> r2"
    by linarith
  moreover have "\<bar>r2 - q * 100\<bar> \<le> q * 100 / 2 ^ 51"
  proof (rule abs_leI)
    have a: "r1 \<le> q + q / 2 ^ 53" "q - q / 2 ^ 53 \<le> r1"
      using r1(2) by linarith+
    have b: "r2 \<le> r1 * 100 + r1 * 100 / 2 ^ 53" "r1 * 100 - r1 * 100 / 2 ^ 53 \<le> r2"
      using r2(2) by linarith+
    show "r2 - q * 100 \<le> q * 100 / 2 ^ 51"
      using a(1) b(1) q_pos by simp
    show "- (r2 - q * 100) \<le> q * 100 / 2 ^ 51"
      using a(2) b(2) q_pos by simp
  qed
  ultimately show ?thesis
    using r1(1) r2(1) by blast
qed

lemma times100_div_bound:
  fixes c t :: nat
  assumes "0 < t" "c < 2 ^ 53" "t < 2 ^ 53"
  shows "\<exists>r. times100 (js_div (Some c) (Some t)) = Num r \<and> 0 \<le> r
           \<and> \<bar>r - of_nat c / of_nat t * 100\<bar> \<le> of_nat c / of_nat t * 100 / 2 ^ 51"
proof (cases "c = 0")
  case True
  then show ?thesis
    using assms by (simp add: number_of_exact to_double_def)
next
  case False
  define q :: rat where "q = of_nat c / of_nat t"
  have t: "(1::rat) \<le> of_nat t" "(of_nat t :: rat) < 2 ^ 53"
    using assms(1) apply (simp add: Suc_le_eq)
    using assms(3) by (metis of_nat_less_iff of_nat_numeral of_nat_power)
  have c: "(1::rat) \<le> of_nat c" "(of_nat c :: rat) < 2 ^ 53"
    using False apply (simp add: Suc_le_eq)
    using assms(2) by (metis of_nat_less_iff of_nat_numeral of_nat_power)
  have "1 / 2 ^ 53 \<le> 1 / (of_nat t :: rat)"
    using t by (simp add: field_simps)
  also have "\<dots> \<le> q"
    unfolding q_def using c(1) t(1) by (simp add: divide_right_mono)
  finally have q_lo: "1 / 2 ^ 53 \<le> q" .
  have "q \<le> of_nat c / 1"
    unfolding q_def using t(1) c(1) by (intro divide_left_mono) simp_all
  then have q_hi: "q < 2 ^ 53"
    using c(2) by simp
  obtain r1 r2 where r: "to_double q = Num r1" "to_double (r1 * 100) = Num r2" "0 \<le> r2"
      "\<bar>r2 - q * 100\<bar> \<le> q * 100 / 2 ^ 51"
    using to_double_twice [OF q_lo q_hi] by blast
  have "times100 (js_div (Some c) (Some t)) = Num r2"
    using assms r(1,2) by (simp add: number_of_exact q_def)
  then show ?thesis
    using r(3,4) unfolding q_def by blast
qed

section \<open>The percentage of a download\<close>

lemma nearest:
  fixes x :: rat
  shows "\<bar>of_int \<lfloor>x + 1 / 2\<rfloor> - x\<bar> \<le> 1 / 2"
proof -
  have "of_int \<lfloor>x + 1 / 2\<rfloor> \<le> x + 1 / 2" "x + 1 / 2 < of_int \<lfloor>x + 1 / 2\<rfloor> + 1"
    by linarith+
  then show ?thesis by linarith
qed

lemma nat_unique:
  fixes a b :: nat and x e :: rat
  assumes "\<bar>of_nat a - x\<bar> \<le> 1 / 2 + e" "\<bar>x - of_nat b\<bar> < 1 / 2 - e"
  shows "a = b"
proof -
  have "\<bar>(of_nat a :: rat) - of_nat b\<bar> < 1"
    using assms by linarith
  then have "\<bar>(of_int (int a - int b) :: rat)\<bar> < of_int 1"
    by simp
  then have "\<bar>int a - int b\<bar> < 1"
    by (simp only: of_int_abs [symmetric] of_int_less_iff)
  then show ?thesis by simp
qed

lemma percent_guarded: "\<not> js_gt0 (total d) \<Longrightarrow> percent d = Num 0"
  by (simp add: percent_def)

lemma percent_bound:
  assumes "completed d = Some c" "total d = Some t" "0 < t" "c < 2 ^ 53" "t < 2 ^ 53"
  shows "\<exists>k::nat. percent d = Num (of_nat k)
           \<and> \<bar>of_nat k - rat_of_nat c / rat_of_nat t * 100\<bar>
               \<le> 1 / 2 + rat_of_nat c / rat_of_nat t * 100 / 2 ^ 51"
proof -
  obtain r where r: "times100 (js_div (Some c) (Some t)) = Num r" "0 \<le> r"
      "\<bar>r - rat_of_nat c / rat_of_nat t * 100\<bar> \<le> rat_of_nat c / rat_of_nat t * 100 / 2 ^ 51"
    using times100_div_bound [OF assms(3-5)] by blast
  define k where "k = nat \<lfloor>r + 1 / 2\<rfloor>"
  have "0 \<le> \<lfloor>r + 1 / 2\<rfloor>"
    using r(2) by simp
  then have k: "(of_nat k :: rat) = of_int \<lfloor>r + 1 / 2\<rfloor>"
    unfolding k_def by simp
  have "percent d = Num (of_nat k)"
    using assms(1-3) r(1) k by (simp add: percent_def)
  moreover have "\<bar>of_nat k - rat_of_nat c / rat_of_nat t * 100\<bar>
      \<le> 1 / 2 + rat_of_nat c / rat_of_nat t * 100 / 2 ^ 51"
    using nearest [of r] r(3) unfolding k by linarith
  ultimately show ?thesis by blast
qed

lemma percent_exact:
  assumes "completed d = Some c" "total d = Some t" "0 < t" "c < 2 ^ 53" "t < 2 ^ 53"
    and "\<bar>rat_of_nat c / rat_of_nat t * 100 - of_nat k\<bar> < 1 / 2 - rat_of_nat c / rat_of_nat t * 100 / 2 ^ 51"
  shows "percent d = Num (of_nat k)"
proof -
  obtain k' :: nat where k': "percent d = Num (of_nat k')"
      "\<bar>of_nat k' - rat_of_nat c / rat_of_nat t * 100\<bar> \<le> 1 / 2 + rat_of_nat c / rat_of_nat t * 100 / 2 ^ 51"
    using percent_bound [OF assms(1-5)] by blast
  have "k' = k"
    using k'(2) assms(6) by (rule nat_unique)
  then show ?thesis
    using k'(1) by simp
qed

lemma handleUpdateStatus_bound:
  assumes "status d = ''downloading''" "completed d = Some c" "total d = Some t"
    "0 < t" "c < 2 ^ 53" "t < 2 ^ 53"
  shows "\<exists>n::nat. handleUpdateStatus d
             = Inr (''Downloading: '' @ show_nat (n div 10) @ ''.'' @ show_nat (n mod 10) @ ''%'')
           \<and> \<bar>of_nat n - rat_of_nat c / rat_of_nat t * 1000\<bar>
               \<le> 1 / 2 + rat_of_nat c / rat_of_nat t * 1000 / 2 ^ 51"
proof -
  define x where "x = rat_of_nat c / rat_of_nat t"
  obtain r where r: "times100 (js_div (Some c) (Some t)) = Num r" "0 \<le> r"
      "\<bar>r - x * 100\<bar> \<le> x * 100 / 2 ^ 51"
    unfolding x_def using times100_div_bound [OF assms(4-6)] by blast
  define n where "n = nat \<lfloor>r * 10 + 1 / 2\<rfloor>"
  have "0 \<le> \<lfloor>r * 10 + 1 / 2\<rfloor>"
    using r(2) by simp
  then have n: "(of_nat n :: rat) = of_int \<lfloor>r * 10 + 1 / 2\<rfloor>"
    unfolding n_def by simp
  have "handleUpdateStatus d
      = Inr (''Downloading: '' @ show_nat (n div 10) @ ''.'' @ show_nat (n mod 10) @ ''%'')"
    using assms(1-3) r(1) by (simp add: handleUpdateStatus_def Let_def n_def)
  moreover have "\<bar>of_nat n - x * 1000\<bar> \<le> 1 / 2 + x * 1000 / 2 ^ 51"
    using nearest [of "r * 10"] r(3) unfolding n by linarith
  ultimately show ?thesis
    unfolding x_def by blast
qed

lemma handleUpdateStatus_exact:
  assumes "status d = ''downloading''" "completed d = Some c" "total d = Some t"
    "0 < t" "c < 2 ^ 53" "t < 2 ^ 53"
    and "\<bar>rat_of_nat c / rat_of_nat t * 1000 - of_nat n\<bar> < 1 / 2 - rat_of_nat c / rat_of_nat t * 1000 / 2 ^ 51"
  shows "handleUpdateStatus d
           = Inr (''Downloading: '' @ show_nat (n div 10) @ ''.'' @ show_nat (n mod 10) @ ''%'')"
proof -
  obtain n' :: nat where n': "handleUpdateStatus d
        = Inr (''Downloading: '' @ show_nat (n' div 10) @ ''.'' @ show_nat (n' mod 10) @ ''%'')"
      "\<bar>of_nat n' - rat_of_nat c / rat_of_nat t * 1000\<bar> \<le> 1 / 2 + rat_of_nat c / rat_of_nat t * 1000 / 2 ^ 51"
    using handleUpdateStatus_bound [OF assms(1-6)] by blast
  have "n' = n"
    using n'(2) assms(7) by (rule nat_unique)
  then show ?thesis
    using n'(1) by simp
qed

lemma downloading_record_fields:
  "status (downloading_record x y) = ''downloading''"
  "completed (downloading_record x y) = Some x"
  "total (downloading_record x y) = Some y"
  by (simp_all add: downloading_record_def)

lemma percent_23_40: "percent (downloading_record 23 40) = Num 57"
proof -
  have "math_round (Num (8092405580431359 / 140737488355328)) = Num 57"
    by code_simp
  then show ?thesis
    using double_23_40 by (simp add: percent_def downloading_record_fields)
qed

lemma percent_1_3: "percent (downloading_record 1 3) = Num 33"
proof -
  have "math_round (Num (2345624805922133 / 70368744177664)) = Num 33"
    by code_simp
  then show ?thesis
    using double_1_3 by (simp add: percent_def downloading_record_fields del: One_nat_def)
qed

lemma handleUpdateStatus_23_80:
  "handleUpdateStatus (downloading_record 23 80) = Inr ''Downloading: 28.7%''"
proof -
  have "toFixed1 (Num (8092405580431359 / 281474976710656)) = ''28.7''"
    by code_simp
  then show ?thesis
    using double_23_80 by (simp add: handleUpdateStatus_def downloading_record_fields)
qed

lemma handleUpdateStatus_41_80:
  "handleUpdateStatus (downloading_record 41 80) = Inr ''Downloading: 51.2%''"
proof -
  have "toFixed1 (Num (7212796278210559 / 140737488355328)) = ''51.2''"
    by code_simp
  then show ?thesis
    using double_41_80 by (simp add: handleUpdateStatus_def downloading_record_fields)
qed

lemma handleUpdateStatus_1_3:
  "handleUpdateStatus (downloading_record 1 3) = Inr ''Downloading: 33.3%''"
proof -
  have "toFixed1 (Num (2345624805922133 / 70368744177664)) = ''33.3''"
    by code_simp
  then show ?thesis
    using double_1_3 by (simp add: handleUpdateStatus_def downloading_record_fields del: One_nat_def)
qed

text \<open>
  \<^verbatim>\<open>handleUpdateStatus\<close> divides without the guard that
  \<^verbatim>\<open>AppState.pullModel\<close> has: with a total of zero it shows \<^verbatim>\<open>NaN\<close> or
  \<^verbatim>\<open>Infinity\<close>.
\<close>

lemma handleUpdateStatus_zero_total:
  "handleUpdateStatus (downloading_record 0 0) = Inr ''Downloading: NaN%''
   \<and> handleUpdateStatus (downloading_record 5 0) = Inr ''Downloading: Infinity%''"
  by (simp add: handleUpdateStatus_def downloading_record_fields number_of_exact)

text \<open>
  Claim C7 gives one formula for every consumer. \<^verbatim>\<open>handleUpdateStatus\<close> does not
  round to a whole percentage: one byte of three is shown as \<^verbatim>\<open>33.3\<close>, where
  \<^verbatim>\<open>AppState.pullModel\<close> shows 33.
\<close>

theorem C7_counterexample:
  "handleUpdateStatus (downloading_record 1 3) = Inr ''Downloading: 33.3%''
   \<and> percent (downloading_record 1 3) = Num 33"
  using handleUpdateStatus_1_3 percent_1_3 by simp

text \<open>
  Claim C7, as the code has it, in double-precision arithmetic and for byte counts
  below \<open>2\<^sup>5\<^sup>3\<close>. In \<^verbatim>\<open>AppState.pullModel\<close> the percentage of a
  \<^verbatim>\<open>downloading\<close> record is 0 when \<^verbatim>\<open>total\<close> is zero or absent. When
  \<^verbatim>\<open>total\<close> is positive it is \<^verbatim>\<open>Math.round\<close> of the double
  \<^verbatim>\<open>(completed / total) * 100\<close>: a whole number \<open>k\<close> no farther from the exact
  quotient \<open>x = 100 \<cdot> completed / total\<close> than \<open>1/2 + x / 2\<^sup>5\<^sup>1\<close>, and the whole
  number nearest to \<open>x\<close> whenever \<open>x\<close> is farther than \<open>x / 2\<^sup>5\<^sup>1\<close> from the middle
  between two whole numbers. That number is what the progress bar and the text show,
  so the record with \<^verbatim>\<open>completed\<close> 0 and \<^verbatim>\<open>total\<close> 0 shows 0 percent.
  \<^verbatim>\<open>handleUpdateStatus\<close> shows, for a positive \<^verbatim>\<open>total\<close>, the same double with
  one decimal: \<open>n\<close> tenths, no farther from \<open>10 \<cdot> x\<close> than \<open>1/2 + 10 \<cdot> x / 2\<^sup>5\<^sup>1\<close>.
  The two roundings of the double show where the exact quotient lies on a tie: 23 of
  40 bytes is 57 percent, not 58, and 23 of 80 bytes is \<^verbatim>\<open>28.7\<close>, not
  \<^verbatim>\<open>28.8\<close>.
\<close>

theorem C7_percent:
  "(\<not> js_gt0 (total d) \<longrightarrow> percent d = Num 0)
   \<and> (completed d = Some c \<and> total d = Some t \<and> 0 < t \<and> c < 2 ^ 53 \<and> t < 2 ^ 53
        \<longrightarrow> (\<exists>k::nat. percent d = Num (of_nat k)
               \<and> \<bar>of_nat k - rat_of_nat c / rat_of_nat t * 100\<bar>
                   \<le> 1 / 2 + rat_of_nat c / rat_of_nat t * 100 / 2 ^ 51))
   \<and> (completed d = Some c \<and> total d = Some t \<and> 0 < t \<and> c < 2 ^ 53 \<and> t < 2 ^ 53
       \<and> \<bar>rat_of_nat c / rat_of_nat t * 100 - of_nat k\<bar> < 1 / 2 - rat_of_nat c / rat_of_nat t * 100 / 2 ^ 51
        \<longrightarrow> percent d = Num (of_nat k))
   \<and> (P line = Some d \<and> status d = ''downloading''
        \<longrightarrow> (\<exists>txt. app_line P formatSize line
                   = [Render (Some (show_num (percent d) @ ''%'')) txt]))
   \<and> (status d = ''downloading'' \<and> completed d = Some c \<and> total d = Some t
       \<and> 0 < t \<and> c < 2 ^ 53 \<and> t < 2 ^ 53
        \<longrightarrow> (\<exists>n::nat. handleUpdateStatus d
                   = Inr (''Downloading: '' @ show_nat (n div 10) @ ''.''
                          @ show_nat (n mod 10) @ ''%'')
               \<and> \<bar>of_nat n - rat_of_nat c / rat_of_nat t * 1000\<bar>
                   \<le> 1 / 2 + rat_of_nat c / rat_of_nat t * 1000 / 2 ^ 51))
   \<and> (status d = ''downloading'' \<and> completed d = Some c \<and> total d = Some t
       \<and> 0 < t \<and> c < 2 ^ 53 \<and> t < 2 ^ 53
       \<and> \<bar>rat_of_nat c / rat_of_nat t * 1000 - of_nat n\<bar> < 1 / 2 - rat_of_nat c / rat_of_nat t * 1000 / 2 ^ 51
        \<longrightarrow> handleUpdateStatus d
              = Inr (''Downloading: '' @ show_nat (n div 10) @ ''.''
                     @ show_nat (n mod 10) @ ''%''))
   \<and> percent (downloading_record 0 0) = Num 0
   \<and> app_line parse_record plain_size line_nothing_to_download
       = [Render (Some ''0%'') ''Downloading: 0% (0 / 0)'']
   \<and> percent (downloading_record 23 40) = Num 57
   \<and> handleUpdateStatus (downloading_record 23 80) = Inr ''Downloading: 28.7%''
   \<and> handleUpdateStatus (downloading_record 41 80) = Inr ''Downloading: 51.2%''"
proof -
  have a: "\<not> js_gt0 (total d) \<longrightarrow> percent d = Num 0"
    by (simp add: percent_guarded)
  have b: "completed d = Some c \<and> total d = Some t \<and> 0 < t \<and> c < 2 ^ 53 \<and> t < 2 ^ 53
        \<longrightarrow> (\<exists>k::nat. percent d = Num (of_nat k)
               \<and> \<bar>of_nat k - rat_of_nat c / rat_of_nat t * 100\<bar>
                   \<le> 1 / 2 + rat_of_nat c / rat_of_nat t * 100 / 2 ^ 51)"
    using percent_bound [of d c t] by blast
  have c: "completed d = Some c \<and> total d = Some t \<and> 0 < t \<and> c < 2 ^ 53 \<and> t < 2 ^ 53
       \<and> \<bar>rat_of_nat c / rat_of_nat t * 100 - of_nat k\<bar> < 1 / 2 - rat_of_nat c / rat_of_nat t * 100 / 2 ^ 51
        \<longrightarrow> percent d = Num (of_nat k)"
    using percent_exact [of d c t k] by blast
  have e: "P line = Some d \<and> status d = ''downloading''
        \<longrightarrow> (\<exists>txt. app_line P formatSize line
                   = [Render (Some (show_num (percent d) @ ''%'')) txt])"
    by (simp add: app_line_def app_try_def)
  have f: "status d = ''downloading'' \<and> completed d = Some c \<and> total d = Some t
       \<and> 0 < t \<and> c < 2 ^ 53 \<and> t < 2 ^ 53
        \<longrightarrow> (\<exists>n::nat. handleUpdateStatus d
                   = Inr (''Downloading: '' @ show_nat (n div 10) @ ''.''
                          @ show_nat (n mod 10) @ ''%'')
               \<and> \<bar>of_nat n - rat_of_nat c / rat_of_nat t * 1000\<bar>
                   \<le> 1 / 2 + rat_of_nat c / rat_of_nat t * 1000 / 2 ^ 51)"
    using handleUpdateStatus_bound [of d c t] by blast
  have g: "status d = ''downloading'' \<and> completed d = Some c \<and> total d = Some t
       \<and> 0 < t \<and> c < 2 ^ 53 \<and> t < 2 ^ 53
       \<and> \<bar>rat_of_nat c / rat_of_nat t * 1000 - of_nat n\<bar> < 1 / 2 - rat_of_nat c / rat_of_nat t * 1000 / 2 ^ 51
        \<longrightarrow> handleUpdateStatus d
              = Inr (''Downloading: '' @ show_nat (n div 10) @ ''.''
                     @ show_nat (n mod 10) @ ''%'')"
    using handleUpdateStatus_exact [of d c t n] by blast
  have h: "percent (downloading_record 0 0) = Num 0"
    by (simp add: percent_def downloading_record_fields)
  have i: "app_line parse_record plain_size line_nothing_to_download
       = [Render (Some ''0%'') ''Downloading: 0% (0 / 0)'']"
    by code_simp
  show ?thesis
    using a b c e f g h i percent_23_40 handleUpdateStatus_23_80 handleUpdateStatus_41_80
    by blast
qed

theorem C7_witness:
  "percent (downloading_record 0 0) = Num 0
   \<and> percent (downloading_record 1 2) = Num 50
   \<and> (\<exists>txt. app_line parse_record plain_size line_downloading = [Render (Some ''50%'') txt])
   \<and> handleUpdateStatus (downloading_record 1 2) = Inr ''Downloading: 50.0%''"
proof -
  have q: "parse_record line_downloading = Some (downloading_record 1 2)"
    and s: "show_num (Num 50) = ''50''" "show_nat 50 = ''50''" "show_nat 0 = ''0''"
    by code_simp+
  note f = downloading_record_fields
  have z: "percent (downloading_record 0 0) = Num 0"
    using C7_percent [of "downloading_record 0 0"] by (simp add: f)
  have h: "percent (downloading_record 1 2) = Num 50"
    using C7_percent [of "downloading_record 1 2" 1 2 50] by (simp add: f del: One_nat_def)
  have r: "\<exists>txt. app_line parse_record plain_size line_downloading = [Render (Some ''50%'') txt]"
    using C7_percent [of "downloading_record 1 2" 1 2 50 parse_record line_downloading plain_size 500]
    by (simp add: f q h s del: One_nat_def)
  have u: "handleUpdateStatus (downloading_record 1 2) = Inr ''Downloading: 50.0%''"
    using C7_percent [of "downloading_record 1 2" 1 2 50 parse_record line_downloading plain_size 500]
    by (simp add: f s del: One_nat_def)
  show ?thesis
    using z h r u by blast
qed

section \<open>The not-found middleware in the middle of the stack\<close>

text \<open>With an error pending the router calls nothing but an error handler.\<close>

lemma dispatch_pending:
  "set (fst (dispatch ls (Some err) req)) \<subseteq> set (error_names ls)"
proof (induction ls)
  case Nil
  show ?case by simp
next
  case (Cons l ls)
  then show ?case
    by (cases l) (auto simp: error_names_def)
qed

lemma dispatch_reaches_not_found:
  "set (fst (dispatch (pre @ Use n None not_found # post) None req))
     \<subseteq> set (map layer_name pre) \<union> {n} \<union> set (error_names post)"
proof (induction pre)
  case Nil
  have "set (fst (dispatch post (Some (createError 404 (Some (''Not Found - '' @ originalUrl req)) [])) req))
        \<subseteq> set (error_names post)"
    by (rule dispatch_pending)
  then show ?case
    by (auto simp: not_found_def split: prod.splits)
next
  case (Cons l pre)
  show ?case
  proof (cases "takes l req")
    case False
    with Cons show ?thesis by auto
  next
    case True
    show ?thesis
    proof (cases "run_layer l req")
      case Next
      with True Cons show ?thesis by (auto split: prod.splits)
    next
      case (NextErr err)
      have "set (fst (dispatch (pre @ Use n None not_found # post) (Some err) req))
            \<subseteq> set (error_names (pre @ Use n None not_found # post))"
        by (rule dispatch_pending)
      also have "\<dots> \<subseteq> set (map layer_name pre) \<union> {n} \<union> set (error_names post)"
        by (auto simp: error_names_def)
      finally show ?thesis
        using True NextErr by (auto split: prod.splits)
    next
      case (Respond r)
      with True show ?thesis by simp
    qed
  qed
qed

lemma dispatch_lets_through:
  "lets_through pre req \<Longrightarrow> snd (dispatch (pre @ rest) None req) = snd (dispatch rest None req)"
  by (induction pre) (auto split: prod.splits)

lemma from_not_found_answer:
  "snd (dispatch (from_not_found e) None req)
     = Some (global_error_handler (NODE_ENV e)
               (createError 404 (Some (''Not Found - '' @ originalUrl req)) []))"
  by (simp add: from_not_found_def not_found_def split: prod.splits)

lemma before_not_found_names:
  "set (map layer_name (before_not_found e)) \<inter> set guarded_routes = {}"
  by (auto simp add: before_not_found_def guarded_routes_def)

lemma from_not_found_shape:
  "\<exists>post. from_not_found e = Use ''404 handler'' None not_found # post
      \<and> error_names post = [''global error handler'']"
  by (simp add: from_not_found_def error_names_def)

lemma serve_never_routes:
  "set (fst (serve e req)) \<inter> set guarded_routes = {}"
proof -
  obtain post where p: "from_not_found e = Use ''404 handler'' None not_found # post"
    and n: "error_names post = [''global error handler'']"
    using from_not_found_shape by blast
  have "set (fst (serve e req))
        \<subseteq> set (map layer_name (before_not_found e)) \<union> {''404 handler''} \<union> set (error_names post)"
    unfolding serve_def app_layers_def p by (rule dispatch_reaches_not_found)
  moreover have "({''404 handler''} \<union> set (error_names post)) \<inter> set guarded_routes = {}"
    by (simp add: n guarded_routes_def)
  ultimately show ?thesis
    using before_not_found_names [of e] by blast
qed

text \<open>
  Claim C3, as the code has it. The routes \<^verbatim>\<open>GET /api/models\<close>,
  \<^verbatim>\<open>DELETE /api/models\<close>, \<^verbatim>\<open>POST /api/pull\<close>, \<^verbatim>\<open>GET /api/ps\<close> and
  \<^verbatim>\<open>POST /api/update-model\<close> are registered after a middleware that turns every
  request into a 404 error. Whatever the middleware of other packages, the
  environment and the handlers do, a request to one of the five never reaches a
  handler of theirs; and when every layer registered ahead of the not-found
  middleware hands the request on, the answer is the 404 of the global error handler,
  the next error handler down the stack.
\<close>

theorem C3_not_found_shadows_routes:
  assumes "to_guarded_route req"
  shows "set (fst (serve e req)) \<inter> set guarded_routes = {}
       \<and> (lets_through (before_not_found e) req
            \<longrightarrow> snd (serve e req)
                  = Some (global_error_handler (NODE_ENV e)
                            (createError 404 (Some (''Not Found - '' @ originalUrl req)) []))
                \<and> map_option status_of (snd (serve e req)) = Some 404)"
proof -
  have "lets_through (before_not_found e) req
        \<Longrightarrow> snd (serve e req)
            = Some (global_error_handler (NODE_ENV e)
                      (createError 404 (Some (''Not Found - '' @ originalUrl req)) []))"
    by (simp add: serve_def app_layers_def dispatch_lets_through from_not_found_answer)
  moreover have "status_of (global_error_handler (NODE_ENV e)
                      (createError 404 (Some (''Not Found - '' @ originalUrl req)) [])) = 404"
    by (simp add: global_error_handler_def createError_def)
  ultimately show ?thesis
    using serve_never_routes [of e req] by simp
qed

theorem C3_witness:
  "to_guarded_route (request_to GET ''/api/models'')
   \<and> lets_through (before_not_found env_open) (request_to GET ''/api/models'')
   \<and> serve env_open (request_to GET ''/api/models'')
       = ([''pinoHttp'', ''helmet'', ''cors'', ''rateLimit'', ''express.json'',
           ''express.urlencoded'', ''compression'', ''apiKeyAuth'', ''express.static'',
           ''404 handler'', ''global error handler''],
          Some (Json_response 404
                  (JObj [(''success'', JBool False),
                         (''message'', JStr ''Not Found - /api/models''),
                         (''error'', JStr ''Not Found - /api/models''),
                         (''stack'', JOpaque)])))
   \<and> set (fst (serve env_open (request_to GET ''/api/models''))) \<inter> set guarded_routes = {}"
proof -
  have g: "to_guarded_route (request_to GET ''/api/models'')"
    by code_simp
  have l: "lets_through (before_not_found env_open) (request_to GET ''/api/models'')"
    by code_simp
  have v: "serve env_open (request_to GET ''/api/models'')
       = ([''pinoHttp'', ''helmet'', ''cors'', ''rateLimit'', ''express.json'',
           ''express.urlencoded'', ''compression'', ''apiKeyAuth'', ''express.static'',
           ''404 handler'', ''global error handler''],
          Some (Json_response 404
                  (JObj [(''success'', JBool False),
                         (''message'', JStr ''Not Found - /api/models''),
                         (''error'', JStr ''Not Found - /api/models''),
                         (''stack'', JOpaque)])))"
    by code_simp
  show ?thesis
    using g l v C3_not_found_shadows_routes [OF g, of env_open] by blast
qed

text \<open>
  The claim as it is written, every request being answered by the 404, fails where a
  layer ahead of the not-found middleware answers first: with an API key configured,
  a request without the key is refused by \<^verbatim>\<open>apiKeyAuth\<close> and the centralized
  error handler answers 401.
\<close>

theorem C3_counterexample:
  "to_guarded_route (request_to GET ''/api/models'')
   \<and> serve env_locked (request_to GET ''/api/models'')
       = ([''pinoHttp'', ''helmet'', ''cors'', ''rateLimit'', ''express.json'',
           ''express.urlencoded'', ''compression'', ''apiKeyAuth'',
           ''centralized error handler''],
          Some (Json_response 401
                  (JObj [(''success'', JBool False), (''error'', JStr ''Invalid API key'')])))"
  by code_simp

section \<open>Bulk delete\<close>

text \<open>
  When every rejection carries a message, the \<^verbatim>\<open>failed\<close> array lists the
  rejected targets and \<^verbatim>\<open>deleted\<close> counts the others.
\<close>

lemma failed_items_rejected:
  assumes "list_all has_reason targets"
  shows "failed_items targets
     = map (\<lambda>(model, r). (model, item_error r)) (filter (\<lambda>t. \<not> is_fulfilled t) targets)"
  using assms
proof (induction targets)
  case Nil
  show ?case by (simp add: failed_items_def)
next
  case (Cons t ts)
  obtain model r where t: "t = (model, r)" by (cases t)
  from Cons show ?case
    by (cases r) (simp_all add: failed_items_def t)
qed

lemma length_failed_items:
  assumes "list_all has_reason targets"
  shows "int (length targets) - int (length (failed_items targets))
     = int (length (filter is_fulfilled targets))"
proof -
  have "length targets = length (filter is_fulfilled targets)
          + length (filter (\<lambda>t. \<not> is_fulfilled t) targets)"
    by (rule sum_length_filter_compl [symmetric])
  then show ?thesis
    by (simp add: failed_items_rejected [OF assms])
qed

text \<open>
  The second registration answers a partial failure itself, with status 207 and the
  report in the body.
\<close>

lemma delete_models_second_partial:
  assumes "list_all has_reason targets"
    and "\<exists>t \<in> set targets. is_fulfilled t"
    and "\<exists>t \<in> set targets. \<not> is_fulfilled t"
  shows "delete_models_second targets =
     Respond (Json_response 207
       (JObj [(''success'', JBool True),
              (''message'', JStr ''Some models could not be deleted''),
              (''failed'', JArr (map item_json
                 (map (\<lambda>(model, r). (model, item_error r))
                      (filter (\<lambda>t. \<not> is_fulfilled t) targets)))),
              (''deleted'', JNum (int (length (filter is_fulfilled targets))))]))"
proof -
  let ?bad = "filter (\<lambda>t. \<not> is_fulfilled t) targets"
  have f: "failed_items targets = map (\<lambda>(model, r). (model, item_error r)) ?bad"
    by (rule failed_items_rejected [OF assms(1)])
  have ne: "?bad \<noteq> []"
    using assms(3) by (simp add: filter_empty_conv)
  from assms(2) obtain t where t: "t \<in> set targets" "is_fulfilled t"
    by blast
  have "length ?bad < length targets"
    by (rule length_filter_less [OF t(1)]) (simp add: t(2))
  then have lt: "length (failed_items targets) \<noteq> length targets"
    by (simp add: f)
  have n: "targets \<noteq> []"
    using assms(2) by auto
  show ?thesis
    using ne lt n length_failed_items [OF assms(1)]
    by (simp add: delete_models_second_def f)
qed

text \<open>
  The first registration throws the report as an error of status 207. The error
  handler that follows it in the stack copies the message and nothing else.
\<close>

lemma delete_models_partial:
  assumes "list_all has_reason targets" and "\<exists>t \<in> set targets. \<not> is_fulfilled t"
  shows "answer (global_error_handler node_env) (delete_models targets) =
     Some (Json_response 207
       (JObj ([(''success'', JBool False),
               (''message'', JStr ''Some models could not be deleted'')]
              @ (if node_env \<noteq> Some ''production''
                 then [(''error'', JStr ''Some models could not be deleted''), (''stack'', JOpaque)]
                 else []))))"
proof -
  have "failed_items targets \<noteq> []"
    using assms(2) by (simp add: failed_items_rejected [OF assms(1)] filter_empty_conv)
  moreover have "targets \<noteq> []"
    using assms(2) by auto
  ultimately show ?thesis
    by (simp add: delete_models_def global_error_handler_def createError_def truthy_def)
qed

text \<open>
  Claim C4 at the request of the specification, \<^verbatim>\<open>a\<close> deleted and \<^verbatim>\<open>b\<close>
  rejected. The first registration, the one Express would call of the two, ends in a
  207 whose body has neither \<^verbatim>\<open>failed\<close> nor \<^verbatim>\<open>deleted\<close>; the second
  registration would send the report the claim describes; and the server as a whole
  answers 404, both registrations standing behind the not-found middleware.
\<close>

theorem C4_partial_failure_report_lost:
  "answer (global_error_handler None) (delete_models targets_a_b)
     = Some (Json_response 207
         (JObj [(''success'', JBool False),
                (''message'', JStr ''Some models could not be deleted''),
                (''error'', JStr ''Some models could not be deleted''),
                (''stack'', JOpaque)]))
   \<and> answer (global_error_handler (Some ''production'')) (delete_models targets_a_b)
     = Some (Json_response 207
         (JObj [(''success'', JBool False),
                (''message'', JStr ''Some models could not be deleted'')]))
   \<and> delete_models_second targets_a_b
     = Respond (Json_response 207
         (JObj [(''success'', JBool True),
                (''message'', JStr ''Some models could not be deleted''),
                (''failed'', JArr [JObj [(''model'', JStr ''b''), (''error'', JStr ''boom'')]]),
                (''deleted'', JNum 1)]))
   \<and> snd (serve env_open (request_to DELETE ''/api/models''))
     = Some (Json_response 404
         (JObj [(''success'', JBool False),
                (''message'', JStr ''Not Found - /api/models''),
                (''error'', JStr ''Not Found - /api/models''),
                (''stack'', JOpaque)]))"
  by code_simp

section \<open>The record at the end of a relayed stream\<close>

lemma data_events:
  assumes "\<not> ended res"
  shows "foldl (\<lambda>res ev. emit [pipe_listener, end_listener f] ev res) res (map Data chunks)
         = res\<lparr>headersSent := headersSent res \<or> chunks \<noteq> [],
                 written := written res @ map Raw chunks\<rparr>"
  using assms
proof (induction chunks arbitrary: res)
  case Nil
  then show ?case by simp
next
  case (Cons chunk chunks)
  have step: "emit [pipe_listener, end_listener f] (Data chunk) res
              = res\<lparr>headersSent := True, written := written res @ [Raw chunk]\<rparr>"
    using Cons.prems by (simp add: emit_def pipe_listener_def end_listener_def res_write_def)
  have "\<not> ended (res\<lparr>headersSent := True, written := written res @ [Raw chunk]\<rparr>)"
    using Cons.prems by simp
  then show ?case
    using Cons.IH [of "res\<lparr>headersSent := True, written := written res @ [Raw chunk]\<rparr>"]
    by (simp add: step)
qed

lemma relay_piped:
  assumes "\<And>res. headersSent res \<Longrightarrow> f res = res"
  shows "relay f chunks = \<lparr>headersSent = True, written = map Raw chunks, ended = True\<rparr>"
proof -
  have "foldl (\<lambda>res ev. emit [pipe_listener, end_listener f] ev res) fresh_res (map Data chunks)
        = \<lparr>headersSent = chunks \<noteq> [], written = map Raw chunks, ended = False\<rparr>"
    using data_events [of fresh_res f chunks] by (simp add: fresh_res_def)
  then show ?thesis
    using assms [of "\<lparr>headersSent = True, written = map Raw chunks, ended = True\<rparr>"]
    by (simp add: relay_def emit_def pipe_listener_def end_listener_def res_end_def)
qed

text \<open>
  Claim C9 against the code. \<^verbatim>\<open>response.data.pipe(res)\<close> registers its
  \<^verbatim>\<open>'end'\<close> listener before the routes register theirs, and that listener calls
  \<^verbatim>\<open>res.end()\<close>: when the route's listener runs, the headers are out and the
  response is finished, whatever the upstream sent. So the body of the response is
  exactly the forwarded chunks, for the first \<^verbatim>\<open>/api/pull\<close> route and for
  \<^verbatim>\<open>handleModelOperation\<close>, and the record is never appended. An upstream that
  ends cleanly without a byte is the case where the claim has the record appended
  (no forwarded content has sent the headers): the response is ended with an empty
  body. The listener would write the record on a response whose headers are not out,
  as its test says; that state is never the one it runs in.
\<close>

theorem C9_record_never_appended:
  "relay (pull_on_end model) chunks
     = \<lparr>headersSent = True, written = map Raw chunks, ended = True\<rparr>
   \<and> relay (operation_on_end op) chunks
     = \<lparr>headersSent = True, written = map Raw chunks, ended = True\<rparr>
   \<and> written (relay (pull_on_end model) []) = []
   \<and> written (relay (pull_on_end model) []) \<noteq> [success_record model]
   \<and> written (relay (operation_on_end (update_operation model)) []) = []
   \<and> written (relay (operation_on_end (pull_operation model)) []) = []
   \<and> written (pull_on_end model fresh_res) = [success_record model]
   \<and> written (operation_on_end (update_operation model) fresh_res)
     = [Json_text (JObj [(''status'', JStr ''success''), (''model'', JStr model),
                         (''operation'', JStr ''update'')])]"
proof -
  have p: "relay (pull_on_end model) cs
           = \<lparr>headersSent = True, written = map Raw cs, ended = True\<rparr>" for cs
    by (rule relay_piped) (simp add: pull_on_end_def)
  have q: "relay (operation_on_end o') cs
           = \<lparr>headersSent = True, written = map Raw cs, ended = True\<rparr>" for o' cs
    by (rule relay_piped) (simp add: operation_on_end_def)
  have r: "written (pull_on_end model fresh_res) = [success_record model]"
    by (simp add: pull_on_end_def res_end_def fresh_res_def success_record_def)
  have u: "written (operation_on_end (update_operation model) fresh_res)
     = [Json_text (JObj [(''status'', JStr ''success''), (''model'', JStr model),
                         (''operation'', JStr ''update'')])]"
    by (simp add: operation_on_end_def res_end_def fresh_res_def update_operation_def truthy_def)
  show ?thesis
    using p [of chunks] q [of op chunks] p [of "[]"] q [of "update_operation model" "[]"]
      q [of "pull_operation model" "[]"] r u
    by simp
qed

section \<open>The active endpoint\<close>

text \<open>
  Claim C10. \<^verbatim>\<open>POST /api/set-endpoint\<close> assigns \<^verbatim>\<open>ollamaEndpoint\<close> only
  after the body passed the validator and the probe resolved: then the variable is
  the new endpoint and the response is the success. In every other case the variable
  keeps its value, the handler throws an error of status 400, and the centralized
  error handler answers 400. So a change of the variable means a validated endpoint
  whose probe resolved.
\<close>

theorem C10_endpoint_atomic:
  "(endpoint = Some ep \<and> isURL ep \<and> probe ep = None
      \<longrightarrow> set_endpoint isURL probe ollamaEndpoint endpoint
           = (ep, Respond (Json_response 200
                (JObj [(''success'', JBool True),
                       (''message'', JStr ''Endpoint set successfully''),
                       (''endpoint'', JStr ep)]))))
   \<and> (\<not> (\<exists>ep. endpoint = Some ep \<and> isURL ep \<and> probe ep = None)
      \<longrightarrow> fst (set_endpoint isURL probe ollamaEndpoint endpoint) = ollamaEndpoint
          \<and> (\<exists>err. snd (set_endpoint isURL probe ollamaEndpoint endpoint) = NextErr err
                 \<and> err_status err = 400)
          \<and> fst (set_endpoint_route node_env isURL probe ollamaEndpoint endpoint) = ollamaEndpoint
          \<and> (\<exists>body. snd (set_endpoint_route node_env isURL probe ollamaEndpoint endpoint)
                 = Some (Json_response 400 body)))
   \<and> (fst (set_endpoint isURL probe ollamaEndpoint endpoint) \<noteq> ollamaEndpoint
      \<longrightarrow> (\<exists>ep. endpoint = Some ep \<and> isURL ep \<and> probe ep = None))"
  by (auto simp add: set_endpoint_def set_endpoint_route_def createError_def
      centralized_error_handler_def split: option.splits)

theorem C10_witness:
  "set_endpoint (\<lambda>u. True) (\<lambda>u. Some ''connect ECONNREFUSED'')
       ''http://localhost:11434'' (Some ''http://gpu:11434'')
     = (''http://localhost:11434'',
        NextErr (createError 400
          (Some ''Failed to connect to endpoint: connect ECONNREFUSED'') []))
   \<and> set_endpoint_route None (\<lambda>u. True) (\<lambda>u. Some ''connect ECONNREFUSED'')
       ''http://localhost:11434'' (Some ''http://gpu:11434'')
     = (''http://localhost:11434'',
        Some (Json_response 400
          (JObj [(''success'', JBool False),
                 (''error'', JStr ''Failed to connect to endpoint: connect ECONNREFUSED'')])))
   \<and> fst (set_endpoint (\<lambda>u. False) (\<lambda>u. None)
       ''http://localhost:11434'' (Some ''nonsense'')) = ''http://localhost:11434''
   \<and> set_endpoint (\<lambda>u. True) (\<lambda>u. None)
       ''http://localhost:11434'' (Some ''http://gpu:11434'')
     = (''http://gpu:11434'',
        Respond (Json_response 200
          (JObj [(''success'', JBool True),
                 (''message'', JStr ''Endpoint set successfully''),
                 (''endpoint'', JStr ''http://gpu:11434'')])))"
proof -
  have a: "set_endpoint (\<lambda>u. True) (\<lambda>u. Some ''connect ECONNREFUSED'')
       ''http://localhost:11434'' (Some ''http://gpu:11434'')
     = (''http://localhost:11434'',
        NextErr (createError 400
          (Some ''Failed to connect to endpoint: connect ECONNREFUSED'') []))"
    by code_simp
  have b: "set_endpoint_route None (\<lambda>u. True) (\<lambda>u. Some ''connect ECONNREFUSED'')
       ''http://localhost:11434'' (Some ''http://gpu:11434'')
     = (''http://localhost:11434'',
        Some (Json_response 400
          (JObj [(''success'', JBool False),
                 (''error'', JStr ''Failed to connect to endpoint: connect ECONNREFUSED'')])))"
    by code_simp
  have c: "fst (set_endpoint (\<lambda>u. False) (\<lambda>u. None)
       ''http://localhost:11434'' (Some ''nonsense'')) = ''http://localhost:11434''"
    using C10_endpoint_atomic [of "Some ''nonsense''" "''nonsense''" "\<lambda>u. False" "\<lambda>u. None"
        "''http://localhost:11434''"]
    by simp
  have d: "set_endpoint (\<lambda>u. True) (\<lambda>u. None)
       ''http://localhost:11434'' (Some ''http://gpu:11434'')
     = (''http://gpu:11434'',
        Respond (Json_response 200
          (JObj [(''success'', JBool True),
                 (''message'', JStr ''Endpoint set successfully''),
                 (''endpoint'', JStr ''http://gpu:11434'')])))"
    using C10_endpoint_atomic [of "Some ''http://gpu:11434''" "''http://gpu:11434''"
        "\<lambda>u. True" "\<lambda>u. None" "''http://localhost:11434''"]
    by simp
  show ?thesis
    using a b c d by blast
qed

end
